theory Spec2Isabelle
  imports Complex_Main "HOL-Library.AList" "HOL-Library.Log_Nat" "HOL-Library.Code_Target_Nat"
begin

section \<open>ECMAScript primitives used by the collector and the API\<close>

text \<open>
  Both programs are TypeScript. Their behaviour rests on a handful of built-in functions
  (\<open>parseInt\<close>, \<open>parseFloat\<close>, \<open>BigInt\<close>, \<open>Number.prototype.toString\<close>,
  \<open>Date.prototype.toISOString\<close>, \<open>Math.max\<close>, property lookup on an object literal),
  which are written out here after the ECMAScript specification. Strings are \<open>string\<close>;
  the white space recognised is the part of \<open>StrWhiteSpace\<close> below code point 256.
\<close>

datatype error = RangeError | SyntaxError | FetchError | CsvError

definition isWhiteSpace :: "char \<Rightarrow> bool" where
  "isWhiteSpace c = (of_char c \<in> {9, 10, 11, 12, 13, 32, 160 :: nat})"

definition digitOf :: "char \<Rightarrow> nat option" where
  "digitOf c =
     (let n = of_char c :: nat in
      if 48 \<le> n \<and> n \<le> 57 then Some (n - 48)
      else if 97 \<le> n \<and> n \<le> 102 then Some (n - 87)
      else if 65 \<le> n \<and> n \<le> 70 then Some (n - 55)
      else None)"

definition isDigit :: "nat \<Rightarrow> char \<Rightarrow> bool" where
  "isDigit radix c = (case digitOf c of Some d \<Rightarrow> d < radix | None \<Rightarrow> False)"

definition digitsValue :: "nat \<Rightarrow> string \<Rightarrow> nat" where
  "digitsValue radix ds =
     foldl (\<lambda>acc c. acc * radix + (case digitOf c of Some d \<Rightarrow> d | None \<Rightarrow> 0)) 0 ds"

definition allDigits :: "nat \<Rightarrow> string \<Rightarrow> bool" where
  "allDigits radix ds = (ds \<noteq> [] \<and> list_all (isDigit radix) ds)"

definition trim :: "string \<Rightarrow> string" where
  "trim s = rev (dropWhile isWhiteSpace (rev (dropWhile isWhiteSpace s)))"

text \<open>
  A leading sign, as \<open>parseInt\<close>, \<open>parseFloat\<close> and \<open>BigInt\<close> read it: whether the
  value is negated, and the rest of the text.
\<close>

fun splitSign :: "string \<Rightarrow> bool \<times> string" where
  "splitSign [] = (False, [])"
| "splitSign (c # r) =
     (if c = CHR ''-'' then (True, r) else if c = CHR ''+'' then (False, r) else (False, c # r))"

subsection \<open>Integer-valued Numbers\<close>

text \<open>
  A timestamp, a bucket width and a bucket key are Numbers that hold an integer or
  \<open>NaN\<close>. They are modelled by \<open>jsint\<close> with exact integer arithmetic. A Number holds
  every integer up to \<open>2 ^ 53\<close> exactly, and every candle list the aggregation returns has
  keys within the range of \<open>Date\<close> (\<open>8.64 * 10 ^ 12\<close> seconds), far inside that bound;
  the rounding of larger integers is not followed.
\<close>

datatype jsint = NotANumber | Integer int

text \<open>\<open>parseInt(s, 10)\<close>: leading white space, a sign, the longest run of decimal digits.\<close>

definition parseInt10 :: "string \<Rightarrow> jsint" where
  "parseInt10 s =
     (let (neg, u) = splitSign (dropWhile isWhiteSpace s);
          ds = takeWhile (isDigit 10) u
      in if ds = [] then NotANumber
         else Integer (if neg then - int (digitsValue 10 ds) else int (digitsValue 10 ds)))"

text \<open>
  \<open>Math.floor(timestamp / timeframeInSeconds) * timeframeInSeconds\<close>. Division by zero
  gives an infinity or \<open>NaN\<close>, and the product with zero is \<open>NaN\<close> then.
\<close>

fun bucketTimestampOf :: "jsint \<Rightarrow> jsint \<Rightarrow> jsint" where
  "bucketTimestampOf (Integer t) (Integer w) =
     (if w = 0 then NotANumber else Integer (t div w * w))"
| "bucketTimestampOf _ _ = NotANumber"

fun times1000 :: "jsint \<Rightarrow> jsint" where
  "times1000 (Integer t) = Integer (t * 1000)"
| "times1000 NotANumber = NotANumber"

subsection \<open>BigInt\<close>

fun natToString :: "nat \<Rightarrow> string" where
  "natToString n =
     (if n < 10 then [char_of (48 + n)]
      else natToString (n div 10) @ [char_of (48 + n mod 10)])"

declare natToString.simps [simp del]

text \<open>\<open>BigInt.prototype.toString()\<close>, and \<open>Number.prototype.toString()\<close> on a \<open>jsint\<close>.\<close>

definition bigintToString :: "int \<Rightarrow> string" where
  "bigintToString n = (if n < 0 then CHR ''-'' # natToString (nat (- n)) else natToString (nat n))"

fun numberToString :: "jsint \<Rightarrow> string" where
  "numberToString NotANumber = ''NaN''"
| "numberToString (Integer n) = bigintToString n"

text \<open>The radix and the digits of a literal \<open>0x..\<close>, \<open>0o..\<close> or \<open>0b..\<close>.\<close>

fun nonDecimal :: "string \<Rightarrow> (nat \<times> string) option" where
  "nonDecimal (z # p # ds) =
     (if z \<noteq> CHR ''0'' then None
      else if p = CHR ''x'' \<or> p = CHR ''X'' then Some (16, ds)
      else if p = CHR ''o'' \<or> p = CHR ''O'' then Some (8, ds)
      else if p = CHR ''b'' \<or> p = CHR ''B'' then Some (2, ds)
      else None)"
| "nonDecimal _ = None"

text \<open>
  \<open>BigInt(s)\<close> on a string (\<open>StringToBigInt\<close>): the text is trimmed on both sides; the
  empty text is \<open>0n\<close>; a literal with a radix prefix takes no sign; anything else but a
  signed run of decimal digits throws \<open>SyntaxError\<close>, here \<open>None\<close>.
\<close>

definition BigInt :: "string \<Rightarrow> int option" where
  "BigInt s =
     (let t = trim s in
      if t = [] then Some 0
      else case nonDecimal t of
        Some (radix, ds) \<Rightarrow>
          if allDigits radix ds then Some (int (digitsValue radix ds)) else None
      | None \<Rightarrow>
          (let (neg, ds) = splitSign t in
           if allDigits 10 ds
           then Some (if neg then - int (digitsValue 10 ds) else int (digitsValue 10 ds))
           else None))"

subsection \<open>Date\<close>

text \<open>
  The civil date of a day number (days since 1970-01-01, proleptic Gregorian calendar):
  year, month, day of the month.
\<close>

definition civilFromDays :: "int \<Rightarrow> int \<times> int \<times> int" where
  "civilFromDays days =
     (let z = days + 719468;
          era = z div 146097;
          doe = z - era * 146097;
          yoe = (doe - doe div 1460 + doe div 36524 - doe div 146096) div 365;
          doy = doe - (365 * yoe + yoe div 4 - yoe div 100);
          mp = (5 * doy + 2) div 153;
          d = doy - (153 * mp + 2) div 5 + 1;
          m = (if mp < 10 then mp + 3 else mp - 9);
          y = yoe + era * 400 + (if m \<le> 2 then 1 else 0)
      in (y, m, d))"

definition pad :: "nat \<Rightarrow> int \<Rightarrow> string" where
  "pad k n = replicate (k - length (natToString (nat n))) (CHR ''0'') @ natToString (nat n)"

definition isoYear :: "int \<Rightarrow> string" where
  "isoYear y =
     (if 0 \<le> y \<and> y \<le> 9999 then pad 4 y
      else (if y < 0 then CHR ''-'' else CHR ''+'') # pad 6 (abs y))"

text \<open>
  \<open>new Date(tv).toISOString()\<close>: a time value that is \<open>NaN\<close> or beyond
  \<open>8.64 * 10 ^ 15\<close> milliseconds makes an invalid date, on which \<open>toISOString\<close> throws
  \<open>RangeError\<close>.
\<close>

definition toISOString :: "jsint \<Rightarrow> error + string" where
  "toISOString tv =
     (case tv of
        NotANumber \<Rightarrow> Inl RangeError
      | Integer ms \<Rightarrow>
          if abs ms > 8640000000000000 then Inl RangeError
          else
            (let (y, m, d) = civilFromDays (ms div 86400000);
                 t = ms mod 86400000
             in Inr (isoYear y @ ''-'' @ pad 2 m @ ''-'' @ pad 2 d @ ''T''
                     @ pad 2 (t div 3600000) @ '':'' @ pad 2 (t div 60000 mod 60) @ '':''
                     @ pad 2 (t div 1000 mod 60) @ ''.'' @ pad 3 (t mod 1000) @ ''Z'')))"

section \<open>The API: aggregation of records into candles\<close>

text \<open>A row of \<open>candle_data.csv\<close> as the API reads it (interface \<open>CandleRecord\<close>).\<close>

record CandleRecord =
  Unix_Timestamp :: string
  Open :: string
  Close :: string
  High :: string
  Low :: string
  tVol :: string

text \<open>
  The five values of a candle (interface \<open>CandleDataBigInt\<close> at type \<open>int\<close>), and the
  candle of a response (\<open>CandleDataString\<close> at type \<open>string\<close>, \<open>CandleDataNumber\<close>
  at type \<open>number\<close>).
\<close>

record 'a ohlcv =
  open_v :: 'a
  high :: 'a
  low :: 'a
  close :: 'a
  volume :: 'a

record 'a CandleData = "'a ohlcv" +
  unixTimestamp :: jsint
  readableTimestamp :: string

text \<open>
  The object \<open>aggregatedCandles\<close>: its properties in the order of their creation. The
  key of a property is the text of the bucket timestamp, which is one text per \<open>jsint\<close>.
\<close>

type_synonym 'a buckets = "(jsint \<times> 'a) list"

subsection \<open>Exact mode\<close>

text \<open>
  One pass of the loop body in the branch \<open>outputAsString\<close>. Any \<open>BigInt\<close> that throws
  leaves the \<open>try\<close> block before the object is touched; \<open>parseInt\<close> never throws.
\<close>

definition foldExact :: "jsint \<Rightarrow> int ohlcv buckets \<Rightarrow> CandleRecord \<Rightarrow> int ohlcv buckets" where
  "foldExact timeframeInSeconds aggregatedCandles record =
     (let timestamp = parseInt10 (Unix_Timestamp record) in
      case BigInt (Open record) of None \<Rightarrow> aggregatedCandles | Some op \<Rightarrow>
      case BigInt (High record) of None \<Rightarrow> aggregatedCandles | Some hi \<Rightarrow>
      case BigInt (Low record) of None \<Rightarrow> aggregatedCandles | Some lo \<Rightarrow>
      case BigInt (Close record) of None \<Rightarrow> aggregatedCandles | Some cl \<Rightarrow>
      case BigInt (tVol record) of None \<Rightarrow> aggregatedCandles | Some vol \<Rightarrow>
        (let bucketTimestamp = bucketTimestampOf timestamp timeframeInSeconds in
         case map_of aggregatedCandles bucketTimestamp of
           None \<Rightarrow>
             aggregatedCandles @
               [(bucketTimestamp,
                 \<lparr>open_v = op, high = hi, low = lo, close = cl, volume = vol\<rparr>)]
         | Some candle \<Rightarrow>
             AList.update bucketTimestamp
               (candle\<lparr>high := (if hi > high candle then hi else high candle),
                       low := (if lo < low candle then lo else low candle),
                       close := cl,
                       volume := volume candle + vol\<rparr>)
               aggregatedCandles))"

text \<open>
  The callback of \<open>Object.entries(aggregatedCandles).map\<close>: the key is read back with
  \<open>parseInt\<close>, and \<open>toISOString\<close> may throw.
\<close>

definition entryToCandle :: "jsint \<times> int ohlcv \<Rightarrow> error + string CandleData" where
  "entryToCandle entry =
     (let timestampStr = numberToString (fst entry); ohlcv = snd entry in
      case toISOString (times1000 (parseInt10 timestampStr)) of
        Inl e \<Rightarrow> Inl e
      | Inr readable \<Rightarrow>
          Inr \<lparr>open_v = bigintToString (open_v ohlcv), high = bigintToString (high ohlcv),
               low = bigintToString (low ohlcv), close = bigintToString (close ohlcv),
               volume = bigintToString (volume ohlcv),
               unixTimestamp = parseInt10 timestampStr, readableTimestamp = readable\<rparr>)"

fun mapEntries :: "('a \<Rightarrow> error + 'b) \<Rightarrow> 'a list \<Rightarrow> error + 'b list" where
  "mapEntries f [] = Inr []"
| "mapEntries f (x # xs) =
     (case f x of
        Inl e \<Rightarrow> Inl e
      | Inr y \<Rightarrow> (case mapEntries f xs of Inl e \<Rightarrow> Inl e | Inr ys \<Rightarrow> Inr (y # ys)))"

text \<open>
  The comparator \<open>(a, b) => a.unixTimestamp - b.unixTimestamp\<close> orders by this value; no
  \<open>NaN\<close> reaches the sort, since \<open>toISOString\<close> has thrown on it before.
\<close>

fun seconds :: "jsint \<Rightarrow> int" where
  "seconds (Integer t) = t"
| "seconds NotANumber = 0"

definition aggregateExact :: "CandleRecord list \<Rightarrow> jsint \<Rightarrow> error + string CandleData list" where
  "aggregateExact records timeframeInSeconds =
     (case mapEntries entryToCandle (foldl (foldExact timeframeInSeconds) [] records) of
        Inl e \<Rightarrow> Inl e
      | Inr candles \<Rightarrow> Inr (sort_key (\<lambda>c. seconds (unixTimestamp c)) candles))"

subsection \<open>Approximate mode\<close>

text \<open>
  The Numbers of approximate mode are IEEE 754 doubles: \<open>NaN\<close>, the two infinities, and
  the finite doubles by their rational value (the two zeros are one value here; JSON
  prints both as \<open>0\<close>).
\<close>

datatype number = NaN | NegInfinity | Finite rat | Infinity

definition pow2 :: "int \<Rightarrow> rat" where
  "pow2 k = (if 0 \<le> k then 2 ^ nat k else 1 / 2 ^ nat (- k))"

text \<open>The exponent \<open>e\<close> with \<open>2 ^ e \<le> a < 2 ^ (e + 1)\<close>, for a positive \<open>a\<close>.\<close>

definition binaryExponent :: "rat \<Rightarrow> int" where
  "binaryExponent a =
     (let (p, q) = quotient_of a; d = bitlen p - bitlen q in if pow2 d \<le> a then d else d - 1)"

definition roundHalfEven :: "rat \<Rightarrow> int" where
  "roundHalfEven x =
     (let f = \<lfloor>x\<rfloor>; d = x - of_int f in
      if d < 1 / 2 then f else if 1 / 2 < d then f + 1 else if even f then f else f + 1)"

text \<open>
  The Number value of a rational: the nearest double, ties to the even significand. The
  significand \<open>m\<close> has 53 bits at the exponent \<open>e\<close>; below \<open>2 ^ - 1022\<close> the
  exponent stays and the significand shrinks; a rounded value of \<open>2 ^ 1024\<close> or more is
  an infinity.
\<close>

definition toDouble :: "rat \<Rightarrow> number" where
  "toDouble r =
     (if r = 0 then Finite 0
      else
        (let a = abs r;
             e = max (binaryExponent a) (- 1022);
             m = roundHalfEven (a / pow2 (e - 52))
         in if 1024 \<le> e \<or> (e = 1023 \<and> m = 2 ^ 53)
            then (if r < 0 then NegInfinity else Infinity)
            else Finite ((if r < 0 then - 1 else 1) * of_int m * pow2 (e - 52))))"

text \<open>The value of an exponent part \<open>e..\<close>; a part without digits is not read.\<close>

fun exponentPart :: "string \<Rightarrow> int" where
  "exponentPart [] = 0"
| "exponentPart (c # r) =
     (if c = CHR ''e'' \<or> c = CHR ''E'' then
        (let (neg, u) = splitSign r; ds = takeWhile (isDigit 10) u in
         if ds = [] then 0
         else if neg then - int (digitsValue 10 ds) else int (digitsValue 10 ds))
      else 0)"

text \<open>
  \<open>parseFloat(s)\<close>: leading white space, then the longest prefix that is a
  \<open>StrDecimalLiteral\<close> (a sign, then \<open>Infinity\<close> or digits with an optional fraction and
  exponent); \<open>NaN\<close> when there is none.
\<close>

definition parseFloat :: "string \<Rightarrow> number" where
  "parseFloat s =
     (let (neg, u) = splitSign (dropWhile isWhiteSpace s) in
      if take 8 u = ''Infinity'' then (if neg then NegInfinity else Infinity)
      else
        (let ip = takeWhile (isDigit 10) u;
             r1 = dropWhile (isDigit 10) u;
             dot = (r1 \<noteq> [] \<and> hd r1 = CHR ''.'');
             fp = (if dot then takeWhile (isDigit 10) (tl r1) else []);
             r2 = (if dot then dropWhile (isDigit 10) (tl r1) else r1)
         in if ip = [] \<and> fp = [] then NaN
            else
              (let mv = of_nat (digitsValue 10 (ip @ fp))
                          * 10 powi (exponentPart r2 - int (length fp))
               in toDouble (if neg then - mv else mv))))"

fun isNaN :: "number \<Rightarrow> bool" where
  "isNaN NaN = True"
| "isNaN _ = False"

text \<open>The comparison \<open>a < b\<close> of two Numbers; false when either is \<open>NaN\<close>.\<close>

fun numberLess :: "number \<Rightarrow> number \<Rightarrow> bool" where
  "numberLess NaN _ = False"
| "numberLess _ NaN = False"
| "numberLess _ NegInfinity = False"
| "numberLess NegInfinity _ = True"
| "numberLess Infinity _ = False"
| "numberLess _ Infinity = True"
| "numberLess (Finite a) (Finite b) = (a < b)"

definition Math_max :: "number \<Rightarrow> number \<Rightarrow> number" where
  "Math_max a b = (if isNaN a \<or> isNaN b then NaN else if numberLess a b then b else a)"

definition Math_min :: "number \<Rightarrow> number \<Rightarrow> number" where
  "Math_min a b = (if isNaN a \<or> isNaN b then NaN else if numberLess b a then b else a)"

text \<open>The sum \<open>a + b\<close> of two Numbers.\<close>

fun numberAdd :: "number \<Rightarrow> number \<Rightarrow> number" where
  "numberAdd NaN _ = NaN"
| "numberAdd _ NaN = NaN"
| "numberAdd Infinity NegInfinity = NaN"
| "numberAdd NegInfinity Infinity = NaN"
| "numberAdd Infinity _ = Infinity"
| "numberAdd _ Infinity = Infinity"
| "numberAdd NegInfinity _ = NegInfinity"
| "numberAdd _ NegInfinity = NegInfinity"
| "numberAdd (Finite a) (Finite b) = toDouble (a + b)"

text \<open>A loop whose body may throw: the first exception ends it.\<close>

fun forEach :: "('s \<Rightarrow> 'a \<Rightarrow> error + 's) \<Rightarrow> 's \<Rightarrow> 'a list \<Rightarrow> error + 's" where
  "forEach body s [] = Inr s"
| "forEach body s (x # xs) =
     (case body s x of Inl e \<Rightarrow> Inl e | Inr s' \<Rightarrow> forEach body s' xs)"

text \<open>
  One pass of the loop body in the other branch. The check \<open>some(isNaN)\<close> skips the
  record; a new bucket renders its date at once, outside any \<open>try\<close>.
\<close>

definition foldApprox ::
  "jsint \<Rightarrow> number CandleData buckets \<Rightarrow> CandleRecord \<Rightarrow> error + number CandleData buckets" where
  "foldApprox timeframeInSeconds aggregatedCandles record =
     (let timestamp = parseInt10 (Unix_Timestamp record);
          op = parseFloat (Open record); hi = parseFloat (High record);
          lo = parseFloat (Low record); cl = parseFloat (Close record);
          vol = parseFloat (tVol record)
      in if timestamp = NotANumber \<or> isNaN op \<or> isNaN hi \<or> isNaN lo \<or> isNaN cl \<or> isNaN vol
         then Inr aggregatedCandles
         else
           (let bucketTimestamp = bucketTimestampOf timestamp timeframeInSeconds in
            case map_of aggregatedCandles bucketTimestamp of
              None \<Rightarrow>
                (case toISOString (times1000 bucketTimestamp) of
                   Inl e \<Rightarrow> Inl e
                 | Inr readable \<Rightarrow>
                     Inr (aggregatedCandles @
                       [(bucketTimestamp,
                         \<lparr>open_v = op, high = hi, low = lo, close = cl, volume = vol,
                          unixTimestamp = bucketTimestamp, readableTimestamp = readable\<rparr>)]))
            | Some candle \<Rightarrow>
                Inr (AList.update bucketTimestamp
                  (candle\<lparr>high := Math_max (high candle) hi,
                          low := Math_min (low candle) lo,
                          close := cl,
                          volume := numberAdd (volume candle) vol\<rparr>)
                  aggregatedCandles)))"

definition aggregateApprox :: "CandleRecord list \<Rightarrow> jsint \<Rightarrow> error + number CandleData list" where
  "aggregateApprox records timeframeInSeconds =
     (case forEach (foldApprox timeframeInSeconds) [] records of
        Inl e \<Rightarrow> Inl e
      | Inr aggregatedCandles \<Rightarrow>
          Inr (sort_key (\<lambda>c. seconds (unixTimestamp c)) (map snd aggregatedCandles)))"

subsection \<open>The function \<open>aggregateCandleData\<close>\<close>

datatype candles = Numbers "number CandleData list" | Strings "string CandleData list"

definition aggregateCandleData :: "CandleRecord list \<Rightarrow> jsint \<Rightarrow> bool \<Rightarrow> error + candles" where
  "aggregateCandleData records timeframeInSeconds outputAsString =
     (if outputAsString then map_sum id Strings (aggregateExact records timeframeInSeconds)
      else map_sum id Numbers (aggregateApprox records timeframeInSeconds))"

subsection \<open>The endpoints\<close>

text \<open>
  What a property lookup \<open>timeframeMap[timeframe]\<close> can give: nothing, a number of the
  object literal, or a member that the literal inherits from \<open>Object.prototype\<close> (a
  function, or the prototype itself for \<open>__proto__\<close>).
\<close>

datatype jsvalue = Undefined | NumberValue int | Inherited

definition timeframeMap :: "(string \<times> int) list" where
  "timeframeMap =
     [(''1m'', 60), (''5m'', 300), (''15m'', 900), (''30m'', 1800), (''45m'', 2700),
      (''1h'', 3600), (''2h'', 7200), (''3h'', 10800), (''4h'', 14400), (''5h'', 18000),
      (''6h'', 21600), (''12h'', 43200), (''15h'', 54000), (''18h'', 64800), (''1d'', 86400)]"

definition objectPrototypeKeys :: "string list" where
  "objectPrototypeKeys =
     [''constructor'', ''hasOwnProperty'', ''isPrototypeOf'', ''propertyIsEnumerable'',
      ''toLocaleString'', ''toString'', ''valueOf'', ''__proto__'', ''__defineGetter__'',
      ''__defineSetter__'', ''__lookupGetter__'', ''__lookupSetter__'']"

definition getProperty :: "(string \<times> int) list \<Rightarrow> string \<Rightarrow> jsvalue" where
  "getProperty obj key =
     (case map_of obj key of
        Some n \<Rightarrow> NumberValue n
      | None \<Rightarrow> if key \<in> set objectPrototypeKeys then Inherited else Undefined)"

text \<open>The test \<open>!v\<close>, and the Number that arithmetic makes of a value.\<close>

fun falsy :: "jsvalue \<Rightarrow> bool" where
  "falsy Undefined = True"
| "falsy (NumberValue n) = (n = 0)"
| "falsy Inherited = False"

fun toNumber :: "jsvalue \<Rightarrow> jsint" where
  "toNumber (NumberValue n) = Integer n"
| "toNumber _ = NotANumber"

text \<open>
  \<open>getCandleRecords\<close>. The argument is the parsed content of \<open>candle_data.csv\<close>, or
  \<open>None\<close> when reading or parsing throws. The sort is stable, by the comparator
  \<open>parseInt(a) - parseInt(b)\<close>, whose \<open>NaN\<close> counts as \<open>0\<close>; with such a
  comparator the order is left to the engine, and insertion is the one taken here.
\<close>

definition compareTimestamps :: "CandleRecord \<Rightarrow> CandleRecord \<Rightarrow> int" where
  "compareTimestamps a b =
     (case (parseInt10 (Unix_Timestamp a), parseInt10 (Unix_Timestamp b)) of
        (Integer x, Integer y) \<Rightarrow> x - y
      | _ \<Rightarrow> 0)"

fun insertBy :: "('a \<Rightarrow> 'a \<Rightarrow> int) \<Rightarrow> 'a \<Rightarrow> 'a list \<Rightarrow> 'a list" where
  "insertBy cmp x [] = [x]"
| "insertBy cmp x (y # ys) = (if cmp x y \<le> 0 then x # y # ys else y # insertBy cmp x ys)"

definition sortBy :: "('a \<Rightarrow> 'a \<Rightarrow> int) \<Rightarrow> 'a list \<Rightarrow> 'a list" where
  "sortBy cmp xs = foldr (insertBy cmp) xs []"

definition getCandleRecords :: "CandleRecord list option \<Rightarrow> error + CandleRecord list" where
  "getCandleRecords csv =
     (case csv of None \<Rightarrow> Inl CsvError | Some records \<Rightarrow> Inr (sortBy compareTimestamps records))"

text \<open>
  A response: status 400 with the message and \<open>availableTimeframes\<close>, status 200 with a
  body, or status 500 with a text. The three bodies are the candles, the candles without
  \<open>volume\<close>, and the candles with \<open>volume\<close> alone.
\<close>

datatype 'a response = BadRequest string "string list" | Ok 'a | ServerError string

datatype ('n, 's) either_list = NumberRows "'n list" | StringRows "'s list"

type_synonym 'a ohlcRow = "jsint \<times> string \<times> 'a \<times> 'a \<times> 'a \<times> 'a"
type_synonym 'a volumeRow = "jsint \<times> string \<times> 'a"

definition ohlcOf :: "'a CandleData \<Rightarrow> 'a ohlcRow" where
  "ohlcOf c = (unixTimestamp c, readableTimestamp c, open_v c, high c, low c, close c)"

definition volumeOf :: "'a CandleData \<Rightarrow> 'a volumeRow" where
  "volumeOf c = (unixTimestamp c, readableTimestamp c, volume c)"

text \<open>
  The part the three handlers share: the guard on the label, then the records and the
  aggregation inside \<open>try\<close>; \<open>format\<close> is the query parameter, if there is one.
\<close>

definition handle ::
  "string \<Rightarrow> string \<Rightarrow> (candles \<Rightarrow> 'a) \<Rightarrow> CandleRecord list option \<Rightarrow> string \<Rightarrow> string option
     \<Rightarrow> 'a response" where
  "handle invalid failure view csv timeframe format =
     (let timeframeInSeconds = getProperty timeframeMap timeframe in
      if falsy timeframeInSeconds then BadRequest invalid (map fst timeframeMap)
      else
        (case getCandleRecords csv of
           Inl e \<Rightarrow> ServerError failure
         | Inr records \<Rightarrow>
             (case aggregateCandleData records (toNumber timeframeInSeconds)
                     (format = Some ''string'') of
                Inl e \<Rightarrow> ServerError failure
              | Inr candleData \<Rightarrow> Ok (view candleData))))"

definition api_candles :: "CandleRecord list option \<Rightarrow> string \<Rightarrow> string option \<Rightarrow> candles response" where
  "api_candles = handle ''Invalid timeframe specified.'' ''Error fetching candle data'' id"

definition api_ohlc ::
  "CandleRecord list option \<Rightarrow> string \<Rightarrow> string option
     \<Rightarrow> (number ohlcRow, string ohlcRow) either_list response" where
  "api_ohlc =
     handle ''Invalid timeframe.'' ''Error fetching OHLC data''
       (\<lambda>fullCandles. case fullCandles of
            Numbers cs \<Rightarrow> NumberRows (map ohlcOf cs)
          | Strings cs \<Rightarrow> StringRows (map ohlcOf cs))"

definition api_volume ::
  "CandleRecord list option \<Rightarrow> string \<Rightarrow> string option
     \<Rightarrow> (number volumeRow, string volumeRow) either_list response" where
  "api_volume =
     handle ''Invalid timeframe.'' ''Error fetching volume data''
       (\<lambda>fullCandles. case fullCandles of
            Numbers cs \<Rightarrow> NumberRows (map volumeOf cs)
          | Strings cs \<Rightarrow> StringRows (map volumeOf cs))"

section \<open>The collector\<close>














section \<open>Notions the properties are stated with\<close>

text \<open>
  A record is included in an aggregation when the loop body gets past its parsing: in
  exact mode when none of the five \<open>BigInt\<close> conversions throws, in approximate mode
  when none of the six parsed Numbers is \<open>NaN\<close>.
\<close>

definition includedExact :: "CandleRecord \<Rightarrow> bool" where
  "includedExact r =
     (BigInt (Open r) \<noteq> None \<and> BigInt (High r) \<noteq> None \<and> BigInt (Low r) \<noteq> None
      \<and> BigInt (Close r) \<noteq> None \<and> BigInt (tVol r) \<noteq> None)"

definition includedApprox :: "CandleRecord \<Rightarrow> bool" where
  "includedApprox r =
     (parseInt10 (Unix_Timestamp r) \<noteq> NotANumber \<and> \<not> isNaN (parseFloat (Open r))
      \<and> \<not> isNaN (parseFloat (High r)) \<and> \<not> isNaN (parseFloat (Low r))
      \<and> \<not> isNaN (parseFloat (Close r)) \<and> \<not> isNaN (parseFloat (tVol r)))"

definition included :: "bool \<Rightarrow> CandleRecord \<Rightarrow> bool" where
  "included outputAsString r = (if outputAsString then includedExact r else includedApprox r)"

text \<open>The bucket of a record, and whether the date of a bucket can be printed.\<close>

definition bucketStart :: "jsint \<Rightarrow> CandleRecord \<Rightarrow> jsint" where
  "bucketStart timeframeInSeconds r =
     bucketTimestampOf (parseInt10 (Unix_Timestamp r)) timeframeInSeconds"

definition renderable :: "jsint \<Rightarrow> bool" where
  "renderable b = (case toISOString (times1000 b) of Inl e \<Rightarrow> False | Inr s \<Rightarrow> True)"

fun timestamps :: "candles \<Rightarrow> jsint list" where
  "timestamps (Numbers cs) = map unixTimestamp cs"
| "timestamps (Strings cs) = map unixTimestamp cs"

text \<open>The keys of an object after one more assignment to the key \<open>k\<close>.\<close>

definition addKey :: "'k list \<Rightarrow> 'k \<Rightarrow> 'k list" where
  "addKey ks k = (if k \<in> set ks then ks else ks @ [k])"

text \<open>The volume of a record in exact mode, and of a printed candle.\<close>

definition bigintOf :: "string \<Rightarrow> int" where
  "bigintOf s = (case BigInt s of Some v \<Rightarrow> v | None \<Rightarrow> 0)"

text \<open>
  The comparison \<open>a <= b\<close> in each mode: of two Numbers, and of two BigInts given by
  their text. The five inequalities between the values of a candle.
\<close>

definition numberLe :: "number \<Rightarrow> number \<Rightarrow> bool" where
  "numberLe a b = (\<not> isNaN a \<and> \<not> isNaN b \<and> \<not> numberLess b a)"

definition bigintLe :: "string \<Rightarrow> string \<Rightarrow> bool" where
  "bigintLe a b = (case (BigInt a, BigInt b) of (Some x, Some y) \<Rightarrow> x \<le> y | _ \<Rightarrow> False)"

definition ordered :: "('a \<Rightarrow> 'a \<Rightarrow> bool) \<Rightarrow> ('a, 'z) ohlcv_scheme \<Rightarrow> bool" where
  "ordered le c =
     (le (low c) (open_v c) \<and> le (low c) (close c) \<and> le (low c) (high c)
      \<and> le (open_v c) (high c) \<and> le (close c) (high c))"

definition tickOrdered :: "bool \<Rightarrow> CandleRecord \<Rightarrow> bool" where
  "tickOrdered outputAsString r =
     (if outputAsString
      then ordered bigintLe
             \<lparr>open_v = Open r, high = High r, low = Low r, close = Close r, volume = tVol r\<rparr>
      else ordered numberLe
             \<lparr>open_v = parseFloat (Open r), high = parseFloat (High r),
              low = parseFloat (Low r), close = parseFloat (Close r),
              volume = parseFloat (tVol r)\<rparr>)"

fun candlesOrdered :: "candles \<Rightarrow> bool" where
  "candlesOrdered (Numbers cs) = list_all (ordered numberLe) cs"
| "candlesOrdered (Strings cs) = list_all (ordered bigintLe) cs"

text \<open>Every candle of approximate mode carries the key of its bucket.\<close>

definition stamped :: "number CandleData buckets \<Rightarrow> bool" where
  "stamped agg = (\<forall>e \<in> set agg. unixTimestamp (snd e) = fst e)"








section \<open>Decimal text and back\<close>

text \<open>
  A BigInt or an integer Number printed in decimal reads back as itself, through
  \<open>BigInt\<close> and through \<open>parseInt\<close>.
\<close>

lemma digitOf_char_of: "(d::nat) < 10 \<Longrightarrow> digitOf (char_of (48 + d)) = Some d"
  by (simp add: digitOf_def Let_def)

lemma isDigit_range: "isDigit 10 c \<longleftrightarrow> 48 \<le> (of_char c :: nat) \<and> (of_char c :: nat) \<le> 57"
  by (auto simp: isDigit_def digitOf_def Let_def)

lemma isDigit_char_of: "(d::nat) < 10 \<Longrightarrow> isDigit 10 (char_of (48 + d))"
  by (simp add: isDigit_def digitOf_char_of)

lemma isDigit_plain:
  assumes "isDigit 10 c"
  shows "\<not> isWhiteSpace c" and "c \<noteq> CHR ''-''" and "c \<noteq> CHR ''+''"
    and "c \<noteq> CHR ''x''" and "c \<noteq> CHR ''X''" and "c \<noteq> CHR ''o''" and "c \<noteq> CHR ''O''"
    and "c \<noteq> CHR ''b''" and "c \<noteq> CHR ''B''"
  using assms by (auto simp: isDigit_range isWhiteSpace_def)

lemma digitsValue_snoc:
  "digitsValue r (ds @ [c]) = digitsValue r ds * r + (case digitOf c of Some d \<Rightarrow> d | None \<Rightarrow> 0)"
  by (simp add: digitsValue_def)

lemma natToString_all_digits: "list_all (isDigit 10) (natToString n)"
proof (induction n rule: natToString.induct)
  case (1 n)
  show ?case
  proof (cases "n < 10")
    case True
    then show ?thesis by (simp add: natToString.simps [of n] isDigit_char_of)
  next
    case False
    with 1 show ?thesis by (simp add: natToString.simps [of n] isDigit_char_of)
  qed
qed

lemma natToString_not_Nil: "natToString n \<noteq> []"
  by (simp add: natToString.simps [of n])

lemma digitsValue_natToString: "digitsValue 10 (natToString n) = n"
proof (induction n rule: natToString.induct)
  case (1 n)
  show ?case
  proof (cases "n < 10")
    case True
    then show ?thesis
      by (simp add: natToString.simps [of n] digitsValue_def digitOf_char_of)
  next
    case False
    with 1 show ?thesis
      by (simp add: natToString.simps [of n] digitsValue_snoc digitOf_char_of)
  qed
qed

lemma hd_natToString: "isDigit 10 (hd (natToString n))"
  using natToString_all_digits [of n] natToString_not_Nil [of n]
  by (cases "natToString n") auto

lemma last_natToString: "isDigit 10 (last (natToString n))"
  using natToString_all_digits [of n] natToString_not_Nil [of n]
  by (metis last_in_set list_all_iff)

lemma takeWhile_all: "list_all P xs \<Longrightarrow> takeWhile P xs = xs"
  by (induction xs) auto

lemma dropWhile_hd: "xs \<noteq> [] \<Longrightarrow> \<not> P (hd xs) \<Longrightarrow> dropWhile P xs = xs"
  by (cases xs) auto

lemma trim_id: "s \<noteq> [] \<Longrightarrow> \<not> isWhiteSpace (hd s) \<Longrightarrow> \<not> isWhiteSpace (last s) \<Longrightarrow> trim s = s"
  by (simp add: trim_def dropWhile_hd hd_rev)

lemma splitSign_digits: "s \<noteq> [] \<Longrightarrow> isDigit 10 (hd s) \<Longrightarrow> splitSign s = (False, s)"
  by (cases s) (auto dest: isDigit_plain)

lemma parseInt10_natToString: "parseInt10 (natToString n) = Integer (int n)"
  using hd_natToString [of n] natToString_not_Nil [of n]
  by (simp add: parseInt10_def dropWhile_hd isDigit_plain splitSign_digits
      takeWhile_all natToString_all_digits digitsValue_natToString)

lemma parseInt10_bigintToString: "parseInt10 (bigintToString n) = Integer n"
proof (cases "n < 0")
  case True
  have "\<not> isWhiteSpace (CHR ''-'')" by (simp add: isWhiteSpace_def)
  with True show ?thesis
    using natToString_not_Nil [of "nat (- n)"]
    by (simp add: bigintToString_def parseInt10_def takeWhile_all natToString_all_digits
        digitsValue_natToString)
next
  case False
  then show ?thesis by (simp add: bigintToString_def parseInt10_natToString)
qed

lemma nonDecimal_digits: "list_all (isDigit 10) s \<Longrightarrow> nonDecimal s = None"
proof (cases s)
  case Nil
  then show ?thesis by simp
next
  case (Cons z r)
  assume a: "list_all (isDigit 10) s"
  show ?thesis
  proof (cases r)
    case Nil
    with Cons show ?thesis by simp
  next
    case (Cons p ds)
    with a \<open>s = z # r\<close> have "isDigit 10 p" by simp
    with Cons \<open>s = z # r\<close> show ?thesis by (auto dest: isDigit_plain)
  qed
qed

lemma BigInt_natToString: "BigInt (natToString n) = Some (int n)"
proof -
  let ?s = "natToString n"
  have t: "trim ?s = ?s"
    using hd_natToString [of n] last_natToString [of n] natToString_not_Nil [of n]
    by (intro trim_id) (auto dest: isDigit_plain)
  show ?thesis
    using natToString_not_Nil [of n] hd_natToString [of n]
    by (simp add: BigInt_def t nonDecimal_digits natToString_all_digits splitSign_digits
        allDigits_def digitsValue_natToString)
qed

lemma nonDecimal_minus: "nonDecimal (CHR ''-'' # s) = None"
  by (cases s) auto

lemma BigInt_bigintToString: "BigInt (bigintToString n) = Some n"
proof (cases "n < 0")
  case True
  let ?s = "CHR ''-'' # natToString (nat (- n))"
  have "\<not> isWhiteSpace (CHR ''-'')" by (simp add: isWhiteSpace_def)
  then have t: "trim ?s = ?s"
    using last_natToString [of "nat (- n)"] natToString_not_Nil [of "nat (- n)"]
    by (intro trim_id) (auto dest: isDigit_plain)
  from True show ?thesis
    using natToString_not_Nil [of "nat (- n)"]
    by (simp add: bigintToString_def BigInt_def t nonDecimal_minus allDigits_def
        natToString_all_digits digitsValue_natToString del: trim_def)
next
  case False
  then show ?thesis by (simp add: bigintToString_def BigInt_natToString)
qed

section \<open>The aggregation\<close>

subsection \<open>Keys\<close>

lemma update_append: "map_of al k = None \<Longrightarrow> al @ [(k, v)] = AList.update k v al"
  by (induction al) (auto split: if_splits)

lemma addKey_update: "map fst (AList.update k v al) = addKey (map fst al) k"
  by (simp add: update_keys addKey_def)

lemma distinct_addKey: "distinct ks \<Longrightarrow> distinct (addKey ks k)"
  by (simp add: addKey_def)

lemma set_addKey: "set (addKey ks k) = insert k (set ks)"
  by (auto simp: addKey_def)

lemma distinct_foldl_addKey: "distinct ks \<Longrightarrow> distinct (foldl addKey ks xs)"
  by (induction xs arbitrary: ks) (simp_all add: distinct_addKey)

lemma set_foldl_addKey: "set (foldl addKey ks xs) = set ks \<union> set xs"
  by (induction xs arbitrary: ks) (auto simp: set_addKey)

subsection \<open>The loop body of exact mode\<close>

lemma foldExact_excluded: "\<not> includedExact r \<Longrightarrow> foldExact tf agg r = agg"
  by (auto simp: foldExact_def includedExact_def Let_def split: option.splits)

text \<open>The candle that an included record leaves in its bucket.\<close>

lemma foldExact_included:
  assumes "BigInt (Open r) = Some op" "BigInt (High r) = Some hi" "BigInt (Low r) = Some lo"
    "BigInt (Close r) = Some cl" "BigInt (tVol r) = Some vol"
  shows "foldExact tf agg r =
     AList.update (bucketStart tf r)
       (case map_of agg (bucketStart tf r) of
          None \<Rightarrow> \<lparr>open_v = op, high = hi, low = lo, close = cl, volume = vol\<rparr>
        | Some candle \<Rightarrow>
            candle\<lparr>high := (if hi > high candle then hi else high candle),
                    low := (if lo < low candle then lo else low candle),
                    close := cl, volume := volume candle + vol\<rparr>)
       agg"
  using assms
  by (simp add: foldExact_def Let_def bucketStart_def update_append split: option.splits)

lemma includedExactE:
  assumes "includedExact r"
  obtains op hi lo cl vol where "BigInt (Open r) = Some op" "BigInt (High r) = Some hi"
    "BigInt (Low r) = Some lo" "BigInt (Close r) = Some cl" "BigInt (tVol r) = Some vol"
  using assms by (auto simp: includedExact_def)

lemma keys_foldExact:
  "map fst (foldExact tf agg r) =
     (if includedExact r then addKey (map fst agg) (bucketStart tf r) else map fst agg)"
proof (cases "includedExact r")
  case True
  then obtain op hi lo cl vol where "BigInt (Open r) = Some op" "BigInt (High r) = Some hi"
    "BigInt (Low r) = Some lo" "BigInt (Close r) = Some cl" "BigInt (tVol r) = Some vol"
    by (rule includedExactE)
  with True show ?thesis
    by (simp add: foldExact_included addKey_update)
next
  case False
  then show ?thesis by (simp add: foldExact_excluded)
qed

lemma keys_foldl_foldExact:
  "map fst (foldl (foldExact tf) agg rs) =
     foldl addKey (map fst agg) (map (bucketStart tf) (filter includedExact rs))"
  by (induction rs arbitrary: agg) (simp_all add: keys_foldExact)

subsection \<open>Printing the buckets\<close>

lemma renderable_iff: "renderable b \<longleftrightarrow> (\<exists>k. b = Integer k \<and> abs k \<le> 8640000000000)"
  by (cases b) (auto simp: renderable_def toISOString_def Let_def split: prod.splits)

lemma toISOString_renderable: "renderable b \<Longrightarrow> \<exists>s. toISOString (times1000 b) = Inr s"
  by (simp add: renderable_def split: sum.splits)

lemma parseInt10_numberToString: "parseInt10 (numberToString b) = b"
proof (cases b)
  case NotANumber
  have "parseInt10 ''NaN'' = NotANumber" by code_simp
  with NotANumber show ?thesis by simp
next
  case (Integer k)
  then show ?thesis by (simp add: parseInt10_bigintToString)
qed

lemma entryToCandle_eq:
  "entryToCandle e =
     (case toISOString (times1000 (fst e)) of
        Inl err \<Rightarrow> Inl err
      | Inr readable \<Rightarrow>
          Inr \<lparr>open_v = bigintToString (open_v (snd e)), high = bigintToString (high (snd e)),
               low = bigintToString (low (snd e)), close = bigintToString (close (snd e)),
               volume = bigintToString (volume (snd e)),
               unixTimestamp = fst e, readableTimestamp = readable\<rparr>)"
  by (simp add: entryToCandle_def Let_def parseInt10_numberToString split: sum.splits)

lemma entryToCandle_Inr:
  assumes "entryToCandle e = Inr c"
  shows "renderable (fst e)" and "unixTimestamp c = fst e"
    and "open_v c = bigintToString (open_v (snd e))" and "high c = bigintToString (high (snd e))"
    and "low c = bigintToString (low (snd e))" and "close c = bigintToString (close (snd e))"
    and "volume c = bigintToString (volume (snd e))"
  using assms by (auto simp: entryToCandle_eq renderable_def split: sum.splits)

lemma entryToCandle_renderable: "renderable (fst e) \<Longrightarrow> \<exists>c. entryToCandle e = Inr c"
  by (auto simp: entryToCandle_eq renderable_def split: sum.splits)

lemma mapEntries_Inr:
  "mapEntries f xs = Inr ys \<Longrightarrow> list_all2 (\<lambda>x y. f x = Inr y) xs ys"
  by (induction xs arbitrary: ys) (auto split: sum.splits)

lemma mapEntries_total: "(\<forall>x \<in> set xs. \<exists>y. f x = Inr y) \<Longrightarrow> \<exists>ys. mapEntries f xs = Inr ys"
  by (induction xs) (auto split: sum.splits)

lemma mapEntries_entryToCandle_keys:
  "mapEntries entryToCandle agg = Inr cs \<Longrightarrow> map unixTimestamp cs = map fst agg"
proof -
  assume "mapEntries entryToCandle agg = Inr cs"
  then have "list_all2 (\<lambda>x y. entryToCandle x = Inr y) agg cs" by (rule mapEntries_Inr)
  then show ?thesis
    by (induction agg cs rule: list_all2_induct) (auto dest: entryToCandle_Inr(2))
qed


subsection \<open>The loop body of approximate mode\<close>

lemma foldApprox_eq:
  "foldApprox tf agg r =
     (if \<not> includedApprox r then Inr agg
      else case map_of agg (bucketStart tf r) of
        None \<Rightarrow>
          (case toISOString (times1000 (bucketStart tf r)) of
             Inl e \<Rightarrow> Inl e
           | Inr readable \<Rightarrow>
               Inr (AList.update (bucketStart tf r)
                 \<lparr>open_v = parseFloat (Open r), high = parseFloat (High r),
                  low = parseFloat (Low r), close = parseFloat (Close r),
                  volume = parseFloat (tVol r),
                  unixTimestamp = bucketStart tf r, readableTimestamp = readable\<rparr> agg))
      | Some candle \<Rightarrow>
          Inr (AList.update (bucketStart tf r)
            (candle\<lparr>high := Math_max (high candle) (parseFloat (High r)),
                    low := Math_min (low candle) (parseFloat (Low r)),
                    close := parseFloat (Close r),
                    volume := numberAdd (volume candle) (parseFloat (tVol r))\<rparr>) agg))"
  by (auto simp: foldApprox_def includedApprox_def Let_def bucketStart_def update_append
      split: option.splits sum.splits)

lemma foldApprox_excluded: "\<not> includedApprox r \<Longrightarrow> foldApprox tf agg r = Inr agg"
  by (simp add: foldApprox_eq)

lemma keys_foldApprox:
  "foldApprox tf agg r = Inr agg' \<Longrightarrow>
   map fst agg' = (if includedApprox r then addKey (map fst agg) (bucketStart tf r) else map fst agg)"
  by (auto simp: foldApprox_eq addKey_update split: if_splits option.splits sum.splits)

lemma foldApprox_total:
  "includedApprox r \<longrightarrow> renderable (bucketStart tf r) \<Longrightarrow> \<exists>agg'. foldApprox tf agg r = Inr agg'"
  by (auto simp: foldApprox_eq renderable_def split: option.splits sum.splits)

lemma set_update_subset: "set (AList.update k v al) \<subseteq> insert (k, v) (set al)"
  by (induction al) auto

lemma stamped_update:
  "stamped agg \<Longrightarrow> unixTimestamp c = k \<Longrightarrow> stamped (AList.update k c agg)"
  using set_update_subset [of k c agg] by (fastforce simp: stamped_def)

lemma stamped_foldApprox:
  assumes "stamped agg" and "foldApprox tf agg r = Inr agg'"
  shows "stamped agg'"
proof (cases "includedApprox r")
  case False
  with assms show ?thesis by (simp add: foldApprox_excluded)
next
  case True
  show ?thesis
  proof (cases "map_of agg (bucketStart tf r)")
    case None
    with True assms show ?thesis
      by (auto simp: foldApprox_eq split: sum.splits intro!: stamped_update)
  next
    case (Some candle)
    then have "(bucketStart tf r, candle) \<in> set agg" by (rule map_of_SomeD)
    with \<open>stamped agg\<close> have "unixTimestamp candle = bucketStart tf r"
      by (auto simp: stamped_def)
    with True Some assms show ?thesis
      by (auto simp: foldApprox_eq intro!: stamped_update)
  qed
qed

subsection \<open>Loops\<close>

lemma forEach_append:
  "forEach body s (xs @ ys) =
     (case forEach body s xs of Inl e \<Rightarrow> Inl e | Inr s' \<Rightarrow> forEach body s' ys)"
  by (induction xs arbitrary: s) (auto split: sum.splits)

lemma keys_forEach_foldApprox:
  "forEach (foldApprox tf) agg rs = Inr agg' \<Longrightarrow>
   map fst agg' = foldl addKey (map fst agg) (map (bucketStart tf) (filter includedApprox rs))"
proof (induction rs arbitrary: agg)
  case Nil
  then show ?case by simp
next
  case (Cons r rs)
  from Cons.prems obtain agg1 where 1: "foldApprox tf agg r = Inr agg1"
    and 2: "forEach (foldApprox tf) agg1 rs = Inr agg'"
    by (auto split: sum.splits)
  from Cons.IH [OF 2] keys_foldApprox [OF 1] show ?case by simp
qed

lemma forEach_foldApprox_total:
  "\<forall>r \<in> set rs. includedApprox r \<longrightarrow> renderable (bucketStart tf r) \<Longrightarrow>
   \<exists>agg'. forEach (foldApprox tf) agg rs = Inr agg'"
proof (induction rs arbitrary: agg)
  case Nil
  then show ?case by simp
next
  case (Cons r rs)
  then obtain agg1 where "foldApprox tf agg r = Inr agg1"
    using foldApprox_total [of r tf agg] by auto
  with Cons show ?case by simp
qed

lemma stamped_forEach:
  "stamped agg \<Longrightarrow> forEach (foldApprox tf) agg rs = Inr agg' \<Longrightarrow> stamped agg'"
proof (induction rs arbitrary: agg)
  case Nil
  then show ?case by simp
next
  case (Cons r rs)
  from Cons.prems(2) obtain agg1 where 1: "foldApprox tf agg r = Inr agg1"
    and 2: "forEach (foldApprox tf) agg1 rs = Inr agg'"
    by (auto split: sum.splits)
  from stamped_foldApprox [OF Cons.prems(1) 1] 2 show ?case by (rule Cons.IH)
qed

subsection \<open>The sort\<close>

lemma distinct_map_sort_key: "distinct (map f (sort_key f xs)) = distinct (map f xs)"
  by (induction xs) (auto simp: distinct_insort_key)

lemma seconds_inj: "renderable a \<Longrightarrow> renderable b \<Longrightarrow> seconds a = seconds b \<Longrightarrow> a = b"
  by (auto simp: renderable_iff)

lemma sorted_by_seconds:
  assumes r: "\<forall>c \<in> set cs. renderable (unixTimestamp c)"
    and d: "distinct (map unixTimestamp cs)"
  shows "sorted_wrt (<) (map seconds (map unixTimestamp (sort_key (\<lambda>c. seconds (unixTimestamp c)) cs)))"
    and "distinct (map unixTimestamp (sort_key (\<lambda>c. seconds (unixTimestamp c)) cs))"
    and "set (map unixTimestamp (sort_key (\<lambda>c. seconds (unixTimestamp c)) cs))
           = set (map unixTimestamp cs)"
proof -
  let ?f = "\<lambda>c. seconds (unixTimestamp c)"
  have "inj_on seconds (set (map unixTimestamp cs))"
    using r by (auto intro!: inj_onI seconds_inj)
  with d have "distinct (map seconds (map unixTimestamp cs))"
    by (simp only: distinct_map)
  then have "distinct (map ?f cs)" by (simp add: comp_def)
  then have "distinct (map ?f (sort_key ?f cs))" by (simp only: distinct_map_sort_key)
  moreover have "sorted (map ?f (sort_key ?f cs))" by (rule sorted_sort_key)
  ultimately have "sorted_wrt (<) (map ?f (sort_key ?f cs))" by (simp add: strict_sorted_iff)
  then show "sorted_wrt (<) (map seconds (map unixTimestamp (sort_key ?f cs)))"
    by (simp add: comp_def)
  from \<open>distinct (map ?f (sort_key ?f cs))\<close>
  have "distinct (map seconds (map unixTimestamp (sort_key ?f cs)))" by (simp add: comp_def)
  then show "distinct (map unixTimestamp (sort_key ?f cs))" by (metis distinct_map)
  show "set (map unixTimestamp (sort_key ?f cs)) = set (map unixTimestamp cs)" by simp
qed

subsection \<open>One candle for each bucket\<close>

lemma buckets_of_records:
  "set (foldl addKey [] (map (bucketStart tf) (filter P rs))) = bucketStart tf ` {r \<in> set rs. P r}"
  by (auto simp: set_foldl_addKey)

lemma aggregateExact_buckets:
  assumes "\<forall>r \<in> set records. includedExact r \<longrightarrow> renderable (bucketStart tf r)"
  shows "\<exists>cs. aggregateExact records tf = Inr cs
           \<and> sorted_wrt (<) (map seconds (map unixTimestamp cs))
           \<and> distinct (map unixTimestamp cs)
           \<and> set (map unixTimestamp cs) = bucketStart tf ` {r \<in> set records. includedExact r}"
proof -
  let ?agg = "foldl (foldExact tf) [] records"
  let ?ks = "foldl addKey [] (map (bucketStart tf) (filter includedExact records))"
  have keys: "map fst ?agg = ?ks" by (simp add: keys_foldl_foldExact)
  have ks: "set ?ks = bucketStart tf ` {r \<in> set records. includedExact r}"
    by (rule buckets_of_records)
  have "\<forall>e \<in> set ?agg. renderable (fst e)"
  proof
    fix e assume "e \<in> set ?agg"
    then have "fst e \<in> set (map fst ?agg)" by simp
    with keys ks assms show "renderable (fst e)" by auto
  qed
  then obtain cs where cs: "mapEntries entryToCandle ?agg = Inr cs"
    using mapEntries_total [of ?agg entryToCandle] entryToCandle_renderable by blast
  then have stamps: "map unixTimestamp cs = ?ks"
    using keys by (simp add: mapEntries_entryToCandle_keys)
  have r: "\<forall>c \<in> set cs. renderable (unixTimestamp c)"
  proof
    fix c assume "c \<in> set cs"
    then have "unixTimestamp c \<in> set (map unixTimestamp cs)" by simp
    with stamps ks assms show "renderable (unixTimestamp c)" by auto
  qed
  have d: "distinct (map unixTimestamp cs)"
    using stamps by (simp add: distinct_foldl_addKey)
  from cs sorted_by_seconds [OF r d] stamps ks show ?thesis
    by (simp add: aggregateExact_def)
qed

lemma aggregateApprox_buckets:
  assumes "\<forall>r \<in> set records. includedApprox r \<longrightarrow> renderable (bucketStart tf r)"
  shows "\<exists>cs. aggregateApprox records tf = Inr cs
           \<and> sorted_wrt (<) (map seconds (map unixTimestamp cs))
           \<and> distinct (map unixTimestamp cs)
           \<and> set (map unixTimestamp cs) = bucketStart tf ` {r \<in> set records. includedApprox r}"
proof -
  let ?ks = "foldl addKey [] (map (bucketStart tf) (filter includedApprox records))"
  from assms obtain agg where agg: "forEach (foldApprox tf) [] records = Inr agg"
    using forEach_foldApprox_total by blast
  then have keys: "map fst agg = ?ks" by (simp add: keys_forEach_foldApprox)
  have ks: "set ?ks = bucketStart tf ` {r \<in> set records. includedApprox r}"
    by (rule buckets_of_records)
  have "stamped []" by (simp add: stamped_def)
  then have "stamped agg" using agg by (rule stamped_forEach)
  then have "map unixTimestamp (map snd agg) = map fst agg"
    by (simp add: stamped_def)
  with keys have stamps: "map unixTimestamp (map snd agg) = ?ks" by simp
  have r: "\<forall>c \<in> set (map snd agg). renderable (unixTimestamp c)"
  proof
    fix c assume "c \<in> set (map snd agg)"
    then have "unixTimestamp c \<in> unixTimestamp ` set (map snd agg)" by (rule imageI)
    then have "unixTimestamp c \<in> set (map unixTimestamp (map snd agg))" by (simp only: set_map)
    with stamps ks assms show "renderable (unixTimestamp c)" by auto
  qed
  have d: "distinct (map unixTimestamp (map snd agg))"
    using stamps by (simp add: distinct_foldl_addKey)
  note s = sorted_by_seconds [OF r d]
  have "aggregateApprox records tf = Inr (sort_key (\<lambda>c. seconds (unixTimestamp c)) (map snd agg))"
    by (simp add: aggregateApprox_def agg)
  moreover have "set (map unixTimestamp (sort_key (\<lambda>c. seconds (unixTimestamp c)) (map snd agg)))
      = bucketStart tf ` {r \<in> set records. includedApprox r}"
    by (simp only: s(3) stamps ks)
  ultimately show ?thesis using s(1) s(2) by blast
qed


subsection \<open>Records that are skipped\<close>

lemma aggregateExact_skip:
  "\<not> includedExact r \<Longrightarrow> aggregateExact (xs @ r # ys) tf = aggregateExact (xs @ ys) tf"
  by (simp add: aggregateExact_def foldExact_excluded)

lemma aggregateApprox_skip:
  "\<not> includedApprox r \<Longrightarrow> aggregateApprox (xs @ r # ys) tf = aggregateApprox (xs @ ys) tf"
  by (simp add: aggregateApprox_def forEach_append foldApprox_excluded split: sum.splits)

lemma aggregateCandleData_skip:
  "\<not> included outputAsString r \<Longrightarrow>
   aggregateCandleData (xs @ r # ys) tf outputAsString = aggregateCandleData (xs @ ys) tf outputAsString"
  by (cases outputAsString)
    (simp_all add: aggregateCandleData_def included_def aggregateExact_skip aggregateApprox_skip)

lemma Error_not_included: "tVol r = ''Error'' \<Longrightarrow> \<not> included outputAsString r"
proof -
  have "BigInt ''Error'' = None" by code_simp
  moreover have "isNaN (parseFloat ''Error'')" by code_simp
  ultimately show "tVol r = ''Error'' \<Longrightarrow> \<not> included outputAsString r"
    by (simp add: included_def includedExact_def includedApprox_def)
qed

subsection \<open>Volumes in exact mode\<close>

lemma volume_update:
  "(\<Sum>e\<leftarrow>AList.update k v al. volume (snd e)) =
   (\<Sum>e\<leftarrow>al. volume (snd e)) + volume v - (case map_of al k of None \<Rightarrow> (0::int) | Some c \<Rightarrow> volume c)"
  by (induction al) auto

lemma volume_foldExact:
  "(\<Sum>e\<leftarrow>foldExact tf agg r. volume (snd e)) =
   (\<Sum>e\<leftarrow>agg. volume (snd e)) + (if includedExact r then bigintOf (tVol r) else 0)"
proof (cases "includedExact r")
  case True
  then obtain op hi lo cl vol where "BigInt (Open r) = Some op" "BigInt (High r) = Some hi"
    "BigInt (Low r) = Some lo" "BigInt (Close r) = Some cl" "BigInt (tVol r) = Some vol"
    by (rule includedExactE)
  with True show ?thesis
    by (simp add: foldExact_included volume_update bigintOf_def split: option.splits)
next
  case False
  then show ?thesis by (simp add: foldExact_excluded)
qed

lemma volume_foldl_foldExact:
  "(\<Sum>e\<leftarrow>foldl (foldExact tf) agg rs. volume (snd e)) =
   (\<Sum>e\<leftarrow>agg. volume (snd e)) + (\<Sum>r\<leftarrow>filter includedExact rs. bigintOf (tVol r))"
  by (induction rs arbitrary: agg) (simp_all add: volume_foldExact)

lemma sum_list_insort_key: "(\<Sum>x\<leftarrow>insort_key f a xs. g x) = g a + (\<Sum>x\<leftarrow>xs. g x :: int)"
  by (induction xs) auto

lemma sum_list_sort_key: "(\<Sum>x\<leftarrow>sort_key f xs. g x) = (\<Sum>x\<leftarrow>xs. g x :: int)"
  by (induction xs) (auto simp: sum_list_insort_key)

lemma bigintOf_bigintToString: "bigintOf (bigintToString n) = n"
  by (simp add: bigintOf_def BigInt_bigintToString)

lemma mapEntries_volumes:
  assumes "mapEntries entryToCandle agg = Inr cs"
  shows "(\<Sum>c\<leftarrow>cs. bigintOf (volume c)) = (\<Sum>e\<leftarrow>agg. volume (snd e))"
    and "list_all (\<lambda>c. BigInt (volume c) \<noteq> None) cs"
proof -
  from assms have l: "list_all2 (\<lambda>x y. entryToCandle x = Inr y) agg cs" by (rule mapEntries_Inr)
  then show "(\<Sum>c\<leftarrow>cs. bigintOf (volume c)) = (\<Sum>e\<leftarrow>agg. volume (snd e))"
    by (induction agg cs rule: list_all2_induct)
      (auto dest!: entryToCandle_Inr(7) simp: bigintOf_bigintToString)
  from l show "list_all (\<lambda>c. BigInt (volume c) \<noteq> None) cs"
    by (induction agg cs rule: list_all2_induct)
      (auto dest!: entryToCandle_Inr(7) simp: BigInt_bigintToString)
qed


subsection \<open>Order within a candle\<close>

lemma numberLe_refl: "\<not> isNaN a \<Longrightarrow> numberLe a a"
  by (cases a) (auto simp: numberLe_def)

lemma numberLe_trans: "numberLe a b \<Longrightarrow> numberLe b c \<Longrightarrow> numberLe a c"
  by (cases a; cases b; cases c) (auto simp: numberLe_def)

lemma numberLe_total: "\<not> isNaN a \<Longrightarrow> \<not> isNaN b \<Longrightarrow> \<not> numberLess a b \<Longrightarrow> numberLe b a"
  by (simp add: numberLe_def)

lemma numberLess_le: "numberLess a b \<Longrightarrow> numberLe a b"
  by (cases a; cases b) (auto simp: numberLe_def)

lemma numberLe_not_NaN: "numberLe a b \<Longrightarrow> \<not> isNaN a \<and> \<not> isNaN b"
  by (simp add: numberLe_def)

lemma Math_max_ge:
  assumes "\<not> isNaN a" "\<not> isNaN b"
  shows "numberLe a (Math_max a b)" and "numberLe b (Math_max a b)"
  using assms by (auto simp: Math_max_def numberLess_le numberLe_refl numberLe_total)

lemma Math_min_le:
  assumes "\<not> isNaN a" "\<not> isNaN b"
  shows "numberLe (Math_min a b) a" and "numberLe (Math_min a b) b"
  using assms by (auto simp: Math_min_def numberLess_le numberLe_refl numberLe_total)

text \<open>A bucket keeps the five inequalities when an ordered tick is folded into it.\<close>

lemma ordered_fold_number:
  assumes c: "ordered numberLe c"
    and t: "numberLe lo op" "numberLe lo cl" "numberLe lo hi" "numberLe op hi" "numberLe cl hi"
  shows "ordered numberLe
           (c\<lparr>high := Math_max (high c) hi, low := Math_min (low c) lo, close := cl,
              volume := v\<rparr>)"
proof -
  from c have n: "\<not> isNaN (high c)" "\<not> isNaN (low c)"
    by (auto simp: ordered_def dest: numberLe_not_NaN)
  from t have m: "\<not> isNaN hi" "\<not> isNaN lo" by (auto dest: numberLe_not_NaN)
  note mx = Math_max_ge [OF n(1) m(1)] and mn = Math_min_le [OF n(2) m(2)]
  from c have c': "numberLe (low c) (open_v c)" "numberLe (low c) (high c)"
    "numberLe (open_v c) (high c)"
    by (auto simp: ordered_def)
  have "numberLe (Math_min (low c) lo) (open_v c)" using mn(1) c'(1) by (rule numberLe_trans)
  moreover have "numberLe (Math_min (low c) lo) cl" using mn(2) t(2) by (rule numberLe_trans)
  moreover have "numberLe (Math_min (low c) lo) (Math_max (high c) hi)"
    using mn(1) c'(2) mx(1) by (blast intro: numberLe_trans)
  moreover have "numberLe (open_v c) (Math_max (high c) hi)" using c'(3) mx(1) by (rule numberLe_trans)
  moreover have "numberLe cl (Math_max (high c) hi)" using t(5) mx(2) by (rule numberLe_trans)
  ultimately show ?thesis by (simp add: ordered_def)
qed

lemma ordered_fold_int:
  assumes c: "ordered (\<le>) (c :: int ohlcv)"
    and t: "lo \<le> op" "lo \<le> cl" "lo \<le> hi" "op \<le> hi" "cl \<le> hi"
  shows "ordered (\<le>)
           (c\<lparr>high := (if hi > high c then hi else high c),
              low := (if lo < low c then lo else low c), close := cl, volume := v\<rparr>)"
  using assms by (auto simp: ordered_def)


lemma all_update:
  "\<forall>e \<in> set al. P (snd e) \<Longrightarrow> P v \<Longrightarrow> \<forall>e \<in> set (AList.update k v al). P (snd e)"
  using set_update_subset [of k v al] by fastforce

lemma bigintLe_Some: "BigInt a = Some x \<Longrightarrow> BigInt b = Some y \<Longrightarrow> bigintLe a b = (x \<le> y)"
  by (simp add: bigintLe_def)

lemma ordered_foldExact:
  assumes inv: "\<forall>e \<in> set agg. ordered (\<le>) (snd e)"
    and tick: "includedExact r \<longrightarrow> tickOrdered True r"
  shows "\<forall>e \<in> set (foldExact tf agg r). ordered (\<le>) (snd e)"
proof (cases "includedExact r")
  case False
  with inv show ?thesis by (simp add: foldExact_excluded)
next
  case True
  then obtain op hi lo cl vol where p: "BigInt (Open r) = Some op" "BigInt (High r) = Some hi"
    "BigInt (Low r) = Some lo" "BigInt (Close r) = Some cl" "BigInt (tVol r) = Some vol"
    by (rule includedExactE)
  from True tick have "tickOrdered True r" by simp
  with p have t: "lo \<le> op" "lo \<le> cl" "lo \<le> hi" "op \<le> hi" "cl \<le> hi"
    by (simp_all add: tickOrdered_def ordered_def bigintLe_Some)
  show ?thesis
  proof (cases "map_of agg (bucketStart tf r)")
    case None
    from t have "ordered (\<le>) \<lparr>open_v = op, high = hi, low = lo, close = cl, volume = vol\<rparr>"
      by (simp add: ordered_def)
    with inv None show ?thesis
      by (simp only: foldExact_included [OF p] option.case) (rule all_update)
  next
    case (Some candle)
    then have "(bucketStart tf r, candle) \<in> set agg" by (rule map_of_SomeD)
    with inv have "ordered (\<le>) candle" by auto
    from ordered_fold_int [OF this t] inv Some show ?thesis
      by (simp only: foldExact_included [OF p] option.case) (rule all_update)
  qed
qed

lemma ordered_foldl_foldExact:
  "\<forall>e \<in> set agg. ordered (\<le>) (snd e) \<Longrightarrow>
   \<forall>r \<in> set rs. includedExact r \<longrightarrow> tickOrdered True r \<Longrightarrow>
   \<forall>e \<in> set (foldl (foldExact tf) agg rs). ordered (\<le>) (snd e)"
proof (induction rs arbitrary: agg)
  case Nil
  then show ?case by simp
next
  case (Cons r rs)
  from Cons.prems have "\<forall>e \<in> set (foldExact tf agg r). ordered (\<le>) (snd e)"
    by (intro ordered_foldExact) auto
  with Cons.prems show ?case by (simp add: Cons.IH)
qed

lemma list_all2_transfer:
  assumes "list_all2 P xs ys" and "\<forall>x \<in> set xs. Q x" and "\<And>x y. P x y \<Longrightarrow> Q x \<Longrightarrow> R y"
  shows "\<forall>y \<in> set ys. R y"
  using assms by (induction xs ys rule: list_all2_induct) auto

lemma ordered_entryToCandle:
  assumes "entryToCandle e = Inr c" and "ordered (\<le>) (snd e)"
  shows "ordered bigintLe c"
  using assms(2) entryToCandle_Inr(3-6) [OF assms(1)]
  by (simp add: ordered_def bigintLe_def BigInt_bigintToString)

lemma foldApprox_Some:
  "includedApprox r \<Longrightarrow> map_of agg (bucketStart tf r) = Some candle \<Longrightarrow>
   foldApprox tf agg r =
     Inr (AList.update (bucketStart tf r)
            (candle\<lparr>high := Math_max (high candle) (parseFloat (High r)),
                    low := Math_min (low candle) (parseFloat (Low r)),
                    close := parseFloat (Close r),
                    volume := numberAdd (volume candle) (parseFloat (tVol r))\<rparr>) agg)"
  by (simp add: foldApprox_eq)

lemma foldApprox_None:
  "includedApprox r \<Longrightarrow> map_of agg (bucketStart tf r) = None \<Longrightarrow>
   toISOString (times1000 (bucketStart tf r)) = Inr readable \<Longrightarrow>
   foldApprox tf agg r =
     Inr (AList.update (bucketStart tf r)
            \<lparr>open_v = parseFloat (Open r), high = parseFloat (High r),
             low = parseFloat (Low r), close = parseFloat (Close r),
             volume = parseFloat (tVol r),
             unixTimestamp = bucketStart tf r, readableTimestamp = readable\<rparr> agg)"
  by (simp add: foldApprox_eq)

lemma foldApprox_throws:
  "includedApprox r \<Longrightarrow> map_of agg (bucketStart tf r) = None \<Longrightarrow>
   toISOString (times1000 (bucketStart tf r)) = Inl e \<Longrightarrow> foldApprox tf agg r = Inl e"
  by (simp add: foldApprox_eq)

lemma ordered_foldApprox:
  assumes inv: "\<forall>e \<in> set agg. ordered numberLe (snd e)"
    and tick: "includedApprox r \<longrightarrow> tickOrdered False r"
    and step: "foldApprox tf agg r = Inr agg'"
  shows "\<forall>e \<in> set agg'. ordered numberLe (snd e)"
proof (cases "includedApprox r")
  case False
  with inv step show ?thesis by (simp add: foldApprox_excluded)
next
  case True
  with tick have t: "numberLe (parseFloat (Low r)) (parseFloat (Open r))"
    "numberLe (parseFloat (Low r)) (parseFloat (Close r))"
    "numberLe (parseFloat (Low r)) (parseFloat (High r))"
    "numberLe (parseFloat (Open r)) (parseFloat (High r))"
    "numberLe (parseFloat (Close r)) (parseFloat (High r))"
    by (simp_all add: tickOrdered_def ordered_def)
  show ?thesis
  proof (cases "map_of agg (bucketStart tf r)")
    case None
    show ?thesis
    proof (cases "toISOString (times1000 (bucketStart tf r))")
      case (Inl e)
      from foldApprox_throws [OF True None Inl] step show ?thesis by simp
    next
      case (Inr readable)
      let ?c = "\<lparr>open_v = parseFloat (Open r), high = parseFloat (High r),
             low = parseFloat (Low r), close = parseFloat (Close r),
             volume = parseFloat (tVol r),
             unixTimestamp = bucketStart tf r, readableTimestamp = readable\<rparr>"
      from t have "ordered numberLe ?c" by (simp add: ordered_def)
      with inv have "\<forall>e \<in> set (AList.update (bucketStart tf r) ?c agg). ordered numberLe (snd e)"
        by (rule all_update)
      with foldApprox_None [OF True None Inr] step show ?thesis by simp
    qed
  next
    case (Some candle)
    then have "(bucketStart tf r, candle) \<in> set agg" by (rule map_of_SomeD)
    with inv have "ordered numberLe candle" by auto
    from inv ordered_fold_number [OF this t]
    have "\<forall>e \<in> set (AList.update (bucketStart tf r)
            (candle\<lparr>high := Math_max (high candle) (parseFloat (High r)),
                    low := Math_min (low candle) (parseFloat (Low r)),
                    close := parseFloat (Close r),
                    volume := numberAdd (volume candle) (parseFloat (tVol r))\<rparr>) agg).
          ordered numberLe (snd e)"
      by (rule all_update)
    with foldApprox_Some [OF True Some] step show ?thesis by simp
  qed
qed

lemma ordered_forEach_foldApprox:
  "\<forall>e \<in> set agg. ordered numberLe (snd e) \<Longrightarrow>
   \<forall>r \<in> set rs. includedApprox r \<longrightarrow> tickOrdered False r \<Longrightarrow>
   forEach (foldApprox tf) agg rs = Inr agg' \<Longrightarrow>
   \<forall>e \<in> set agg'. ordered numberLe (snd e)"
proof (induction rs arbitrary: agg)
  case Nil
  then show ?case by simp
next
  case (Cons r rs)
  from Cons.prems(3) obtain agg1 where 1: "foldApprox tf agg r = Inr agg1"
    and 2: "forEach (foldApprox tf) agg1 rs = Inr agg'"
    by (auto split: sum.splits)
  from Cons.prems(2) have t: "includedApprox r \<longrightarrow> tickOrdered False r"
    and ts: "\<forall>r \<in> set rs. includedApprox r \<longrightarrow> tickOrdered False r"
    by simp_all
  from Cons.prems(1) t 1 have "\<forall>e \<in> set agg1. ordered numberLe (snd e)"
    by (rule ordered_foldApprox)
  from this ts 2 show ?case by (rule Cons.IH)
qed



subsection \<open>The candle of one bucket\<close>

lemma lookup_foldExact_other:
  "includedExact r \<longrightarrow> bucketStart tf r \<noteq> k \<Longrightarrow> map_of (foldExact tf agg r) k = map_of agg k"
proof (cases "includedExact r")
  case False
  then show ?thesis by (simp add: foldExact_excluded)
next
  case True
  assume "includedExact r \<longrightarrow> bucketStart tf r \<noteq> k"
  with True have ne: "bucketStart tf r \<noteq> k" by simp
  from True obtain op hi lo cl vol where "BigInt (Open r) = Some op" "BigInt (High r) = Some hi"
    "BigInt (Low r) = Some lo" "BigInt (Close r) = Some cl" "BigInt (tVol r) = Some vol"
    by (rule includedExactE)
  with ne show ?thesis by (simp add: foldExact_included update_conv')
qed

lemma lookup_foldl_other:
  "\<forall>r \<in> set rs. includedExact r \<longrightarrow> bucketStart tf r \<noteq> k \<Longrightarrow>
   map_of (foldl (foldExact tf) agg rs) k = map_of agg k"
  by (induction rs arbitrary: agg) (simp_all add: lookup_foldExact_other)

lemma lookup_foldExact_new:
  assumes "BigInt (Open r) = Some op" "BigInt (High r) = Some hi" "BigInt (Low r) = Some lo"
    "BigInt (Close r) = Some cl" "BigInt (tVol r) = Some vol"
    and "map_of agg (bucketStart tf r) = None"
  shows "map_of (foldExact tf agg r) (bucketStart tf r)
           = Some \<lparr>open_v = op, high = hi, low = lo, close = cl, volume = vol\<rparr>"
  using assms(6) by (simp add: foldExact_included [OF assms(1-5)] update_conv')

lemma lookup_sole_tick:
  assumes "BigInt (Open r) = Some op" "BigInt (High r) = Some hi" "BigInt (Low r) = Some lo"
    "BigInt (Close r) = Some cl" "BigInt (tVol r) = Some vol"
    and "\<forall>r' \<in> set xs \<union> set ys. includedExact r' \<longrightarrow> bucketStart tf r' \<noteq> bucketStart tf r"
  shows "map_of (foldl (foldExact tf) [] (xs @ r # ys)) (bucketStart tf r)
           = Some \<lparr>open_v = op, high = hi, low = lo, close = cl, volume = vol\<rparr>"
proof -
  let ?k = "bucketStart tf r"
  from assms(6) have "map_of (foldl (foldExact tf) [] xs) ?k = map_of [] ?k"
    by (intro lookup_foldl_other) simp
  then have "map_of (foldl (foldExact tf) [] xs) ?k = None" by simp
  then have "map_of (foldExact tf (foldl (foldExact tf) [] xs) r) ?k
      = Some \<lparr>open_v = op, high = hi, low = lo, close = cl, volume = vol\<rparr>"
    by (rule lookup_foldExact_new [OF assms(1-5)])
  moreover from assms(6)
  have "map_of (foldl (foldExact tf) (foldExact tf (foldl (foldExact tf) [] xs) r) ys) ?k
      = map_of (foldExact tf (foldl (foldExact tf) [] xs) r) ?k"
    by (intro lookup_foldl_other) simp
  ultimately show ?thesis by simp
qed

lemma list_all2_pick:
  "list_all2 P xs ys \<Longrightarrow> x \<in> set xs \<Longrightarrow> \<exists>y \<in> set ys. P x y"
  by (induction xs ys rule: list_all2_induct) auto


section \<open>The running totals of the collector\<close>






section \<open>The daily totals of the collector\<close>








subsection \<open>The second loop\<close>





subsection \<open>The third loop\<close>




subsection \<open>The pass\<close>





text \<open>
  Claim C1, as the code has it. \<open>toISOString\<close> throws on a bucket start that \<open>Date\<close>
  cannot hold, and the aggregation then returns nothing. For every record sequence whose
  included records all have a bucket start that can be printed (a timestamp that parsed,
  at most \<open>8.64 * 10 ^ 12\<close> seconds from the epoch), every bucket width and either mode,
  the aggregation returns candles; their bucket starts are exactly the bucket starts of the
  included records, each once, in strictly ascending order whatever the order of the
  records.
\<close>

theorem one_candle_per_bucket:
  assumes "\<forall>r \<in> set records. included outputAsString r \<longrightarrow> renderable (bucketStart tf r)"
  shows "\<exists>cs. aggregateCandleData records tf outputAsString = Inr cs
           \<and> sorted_wrt (<) (map seconds (timestamps cs))
           \<and> distinct (timestamps cs)
           \<and> set (timestamps cs) = bucketStart tf ` {r \<in> set records. included outputAsString r}"
proof (cases outputAsString)
  case True
  with assms have "\<forall>r \<in> set records. includedExact r \<longrightarrow> renderable (bucketStart tf r)"
    by (simp add: included_def)
  from aggregateExact_buckets [OF this] True show ?thesis
    by (auto simp: aggregateCandleData_def included_def)
next
  case False
  with assms have "\<forall>r \<in> set records. includedApprox r \<longrightarrow> renderable (bucketStart tf r)"
    by (simp add: included_def)
  from aggregateApprox_buckets [OF this] False show ?thesis
    by (auto simp: aggregateCandleData_def included_def)
qed

theorem one_candle_per_bucket_witness:
  "\<exists>cs. aggregateCandleData
          [\<lparr>Unix_Timestamp = ''90'', Open = ''3'', Close = ''3'', High = ''3'', Low = ''3'', tVol = ''5''\<rparr>,
           \<lparr>Unix_Timestamp = ''30'', Open = ''2'', Close = ''2'', High = ''2'', Low = ''2'', tVol = ''5''\<rparr>,
           \<lparr>Unix_Timestamp = ''oops'', Open = ''x'', Close = ''2'', High = ''2'', Low = ''2'', tVol = ''5''\<rparr>,
           \<lparr>Unix_Timestamp = ''0'', Open = ''1'', Close = ''1'', High = ''1'', Low = ''1'', tVol = ''5''\<rparr>]
          (Integer 60) True = Inr cs
      \<and> sorted_wrt (<) (map seconds (timestamps cs))
      \<and> distinct (timestamps cs)
      \<and> set (timestamps cs) = bucketStart (Integer 60) `
            {r \<in> set
               [\<lparr>Unix_Timestamp = ''90'', Open = ''3'', Close = ''3'', High = ''3'', Low = ''3'', tVol = ''5''\<rparr>,
                \<lparr>Unix_Timestamp = ''30'', Open = ''2'', Close = ''2'', High = ''2'', Low = ''2'', tVol = ''5''\<rparr>,
                \<lparr>Unix_Timestamp = ''oops'', Open = ''x'', Close = ''2'', High = ''2'', Low = ''2'', tVol = ''5''\<rparr>,
                \<lparr>Unix_Timestamp = ''0'', Open = ''1'', Close = ''1'', High = ''1'', Low = ''1'', tVol = ''5''\<rparr>].
             included True r}"
  by (rule one_candle_per_bucket) code_simp

text \<open>
  A record with the timestamp \<open>9000000000000\<close> is included in both modes, and its bucket
  of one minute starts beyond the last date: the aggregation throws, and no candle stands
  for that bucket.
\<close>

theorem one_candle_per_bucket_beyond_dates:
  "included True \<lparr>Unix_Timestamp = ''9000000000000'', Open = ''1'', Close = ''1'', High = ''1'', Low = ''1'', tVol = ''1''\<rparr>
   \<and> included False \<lparr>Unix_Timestamp = ''9000000000000'', Open = ''1'', Close = ''1'', High = ''1'', Low = ''1'', tVol = ''1''\<rparr>
   \<and> aggregateCandleData
        [\<lparr>Unix_Timestamp = ''9000000000000'', Open = ''1'', Close = ''1'', High = ''1'', Low = ''1'', tVol = ''1''\<rparr>]
        (Integer 60) True = Inl RangeError
   \<and> aggregateCandleData
        [\<lparr>Unix_Timestamp = ''9000000000000'', Open = ''1'', Close = ''1'', High = ''1'', Low = ''1'', tVol = ''1''\<rparr>]
        (Integer 60) False = Inl RangeError"
  by code_simp

text \<open>
  Claim C2. In exact mode, whenever the aggregation returns candles, every volume they
  carry is the text of a BigInt, and these volumes add up to the sum of the volumes of the
  included records, as integers. A record whose volume is \<open>'Error'\<close> is not included,
  and the volumes are \<open>int\<close> from \<open>BigInt\<close> to \<open>toString\<close>: no Number takes part.
\<close>

theorem exact_volume_sum:
  assumes "aggregateCandleData records tf True = Inr (Strings cs)"
  shows "list_all (\<lambda>c. BigInt (volume c) \<noteq> None) cs
       \<and> (\<Sum>c\<leftarrow>cs. bigintOf (volume c)) = (\<Sum>r\<leftarrow>filter includedExact records. bigintOf (tVol r))"
proof -
  let ?agg = "foldl (foldExact tf) [] records"
  let ?f = "\<lambda>c :: string CandleData. seconds (unixTimestamp c)"
  from assms obtain cs0 where m: "mapEntries entryToCandle ?agg = Inr cs0"
    and cs: "cs = sort_key ?f cs0"
    by (auto simp: aggregateCandleData_def aggregateExact_def split: sum.splits)
  have "(\<Sum>c\<leftarrow>cs. bigintOf (volume c)) = (\<Sum>c\<leftarrow>cs0. bigintOf (volume c))"
    unfolding cs by (rule sum_list_sort_key)
  also have "\<dots> = (\<Sum>e\<leftarrow>?agg. volume (snd e))" using m by (rule mapEntries_volumes(1))
  also have "\<dots> = (\<Sum>r\<leftarrow>filter includedExact records. bigintOf (tVol r))"
    by (simp add: volume_foldl_foldExact)
  finally have "(\<Sum>c\<leftarrow>cs. bigintOf (volume c)) = (\<Sum>r\<leftarrow>filter includedExact records. bigintOf (tVol r))" .
  moreover have "list_all (\<lambda>c. BigInt (volume c) \<noteq> None) cs"
    using mapEntries_volumes(2) [OF m] by (simp add: cs list_all_iff)
  ultimately show ?thesis by simp
qed

theorem exact_volume_sum_witness:
  "list_all (\<lambda>c. BigInt (volume c) \<noteq> None)
     [\<lparr>open_v = ''1'', high = ''2'', low = ''1'', close = ''2'',
       volume = ''100000000000000000000000000005'',
       unixTimestamp = Integer 0, readableTimestamp = ''1970-01-01T00:00:00.000Z''\<rparr>,
      \<lparr>open_v = ''3'', high = ''3'', low = ''3'', close = ''3'', volume = ''5'',
       unixTimestamp = Integer 60, readableTimestamp = ''1970-01-01T00:01:00.000Z''\<rparr>]
   \<and> (\<Sum>c\<leftarrow>
         [\<lparr>open_v = ''1'', high = ''2'', low = ''1'', close = ''2'',
           volume = ''100000000000000000000000000005'',
           unixTimestamp = Integer 0, readableTimestamp = ''1970-01-01T00:00:00.000Z''\<rparr>,
          \<lparr>open_v = ''3'', high = ''3'', low = ''3'', close = ''3'', volume = ''5'',
           unixTimestamp = Integer 60, readableTimestamp = ''1970-01-01T00:01:00.000Z''\<rparr>].
        bigintOf (volume c))
     = (\<Sum>r\<leftarrow>filter includedExact
         [\<lparr>Unix_Timestamp = ''0'', Open = ''1'', Close = ''1'', High = ''1'', Low = ''1'',
           tVol = ''100000000000000000000000000000''\<rparr>,
          \<lparr>Unix_Timestamp = ''30'', Open = ''2'', Close = ''2'', High = ''2'', Low = ''2'', tVol = ''5''\<rparr>,
          \<lparr>Unix_Timestamp = ''40'', Open = ''9'', Close = ''9'', High = ''9'', Low = ''9'', tVol = ''Error''\<rparr>,
          \<lparr>Unix_Timestamp = ''90'', Open = ''3'', Close = ''3'', High = ''3'', Low = ''3'', tVol = ''5''\<rparr>].
        bigintOf (tVol r))"
  by (rule exact_volume_sum [where tf = "Integer 60"]) code_simp

text \<open>
  Claim C3, as the code has it. \<open>'Error'\<close> is no BigInt and parses to \<open>NaN\<close>, so the
  check that skips a malformed record skips this one as well. For every tick whose volume
  is the marker \<open>'Error'\<close>, aggregation in either mode gives what it gives without that
  tick: neither its open, high, low and close nor a volume of zero reach a candle.
\<close>

theorem unavailable_volume_excluded:
  assumes "tVol r = ''Error''"
  shows "aggregateCandleData (xs @ r # ys) tf outputAsString
           = aggregateCandleData (xs @ ys) tf outputAsString"
  using assms by (intro aggregateCandleData_skip Error_not_included)

theorem unavailable_volume_excluded_witness:
  "aggregateCandleData
     ([\<lparr>Unix_Timestamp = ''0'', Open = ''10'', Close = ''10'', High = ''10'', Low = ''10'', tVol = ''5''\<rparr>]
      @ \<lparr>Unix_Timestamp = ''30'', Open = ''20'', Close = ''20'', High = ''99'', Low = ''1'', tVol = ''Error''\<rparr>
      # []) (Integer 60) False
   = aggregateCandleData
     ([\<lparr>Unix_Timestamp = ''0'', Open = ''10'', Close = ''10'', High = ''10'', Low = ''10'', tVol = ''5''\<rparr>]
      @ []) (Integer 60) False"
  by (rule unavailable_volume_excluded) simp

text \<open>
  A tick with \<open>'Error'\<close> for its volume, after a tick of the same bucket: the candle
  is that of the first tick alone in both modes (the high of 99 and the low of 1 are not
  in it), and the tick alone makes no candle.
\<close>

theorem unavailable_volume_not_folded:
  "aggregateCandleData
     [\<lparr>Unix_Timestamp = ''0'', Open = ''10'', Close = ''10'', High = ''10'', Low = ''10'', tVol = ''5''\<rparr>,
      \<lparr>Unix_Timestamp = ''30'', Open = ''20'', Close = ''20'', High = ''99'', Low = ''1'', tVol = ''Error''\<rparr>]
     (Integer 60) True
   = Inr (Strings
       [\<lparr>open_v = ''10'', high = ''10'', low = ''10'', close = ''10'', volume = ''5'',
         unixTimestamp = Integer 0, readableTimestamp = ''1970-01-01T00:00:00.000Z''\<rparr>])
   \<and> aggregateCandleData
     [\<lparr>Unix_Timestamp = ''0'', Open = ''10'', Close = ''10'', High = ''10'', Low = ''10'', tVol = ''5''\<rparr>,
      \<lparr>Unix_Timestamp = ''30'', Open = ''20'', Close = ''20'', High = ''99'', Low = ''1'', tVol = ''Error''\<rparr>]
     (Integer 60) False
   = Inr (Numbers
       [\<lparr>open_v = Finite 10, high = Finite 10, low = Finite 10, close = Finite 10,
         volume = Finite 5,
         unixTimestamp = Integer 0, readableTimestamp = ''1970-01-01T00:00:00.000Z''\<rparr>])
   \<and> aggregateCandleData
     [\<lparr>Unix_Timestamp = ''30'', Open = ''20'', Close = ''20'', High = ''99'', Low = ''1'', tVol = ''Error''\<rparr>]
     (Integer 60) True = Inr (Strings [])
   \<and> aggregateCandleData
     [\<lparr>Unix_Timestamp = ''30'', Open = ''20'', Close = ''20'', High = ''99'', Low = ''1'', tVol = ''Error''\<rparr>]
     (Integer 60) False = Inr (Numbers [])"
  by code_simp

text \<open>
  Claim C4, as the code has it. The aggregation compares nothing within a tick, so a
  candle is only as well ordered as the ticks folded into it. Whenever the aggregation
  returns candles and every included record has its own low at most its open, close and
  high, and its high at least its open and close (compared as the mode compares), every
  candle has its low at most its open, close and high, and its high at least its open,
  close and low.
\<close>

theorem candle_values_ordered:
  assumes "aggregateCandleData records tf outputAsString = Inr cs"
    and "\<forall>r \<in> set records. included outputAsString r \<longrightarrow> tickOrdered outputAsString r"
  shows "candlesOrdered cs"
proof (cases outputAsString)
  case True
  let ?agg = "foldl (foldExact tf) [] records"
  from True assms(1) obtain cs0 where m: "mapEntries entryToCandle ?agg = Inr cs0"
    and cs: "cs = Strings (sort_key (\<lambda>c. seconds (unixTimestamp c)) cs0)"
    by (auto simp: aggregateCandleData_def aggregateExact_def split: sum.splits)
  from True assms(2) have inv: "\<forall>e \<in> set ?agg. ordered (\<le>) (snd e)"
    by (intro ordered_foldl_foldExact) (simp_all add: included_def)
  from m have l: "list_all2 (\<lambda>x y. entryToCandle x = Inr y) ?agg cs0"
    by (rule mapEntries_Inr)
  have "\<forall>c \<in> set cs0. ordered bigintLe c"
    using l inv by (rule list_all2_transfer) (rule ordered_entryToCandle)
  then show ?thesis by (simp add: cs list_all_iff)
next
  case False
  with assms(1) obtain agg where a: "forEach (foldApprox tf) [] records = Inr agg"
    and cs: "cs = Numbers (sort_key (\<lambda>c. seconds (unixTimestamp c)) (map snd agg))"
    by (auto simp: aggregateCandleData_def aggregateApprox_def split: sum.splits)
  from False assms(2) have "\<forall>r \<in> set records. includedApprox r \<longrightarrow> tickOrdered False r"
    by (simp add: included_def)
  with _ have "\<forall>e \<in> set agg. ordered numberLe (snd e)"
    using a by (rule ordered_forEach_foldApprox) simp
  then show ?thesis by (simp add: cs list_all_iff)
qed

theorem candle_values_ordered_witness:
  "candlesOrdered
     (Strings
        [\<lparr>open_v = ''100'', high = ''130'', low = ''80'', close = ''95'', volume = ''12'',
          unixTimestamp = Integer 0, readableTimestamp = ''1970-01-01T00:00:00.000Z''\<rparr>])"
proof (rule candle_values_ordered)
  show "aggregateCandleData
          [\<lparr>Unix_Timestamp = ''0'', Open = ''100'', Close = ''110'', High = ''120'', Low = ''90'', tVol = ''7''\<rparr>,
           \<lparr>Unix_Timestamp = ''30'', Open = ''105'', Close = ''95'', High = ''130'', Low = ''80'', tVol = ''5''\<rparr>]
          (Integer 60) True
        = Inr (Strings
            [\<lparr>open_v = ''100'', high = ''130'', low = ''80'', close = ''95'', volume = ''12'',
              unixTimestamp = Integer 0, readableTimestamp = ''1970-01-01T00:00:00.000Z''\<rparr>])"
    by code_simp
  show "\<forall>r \<in> set
          [\<lparr>Unix_Timestamp = ''0'', Open = ''100'', Close = ''110'', High = ''120'', Low = ''90'', tVol = ''7''\<rparr>,
           \<lparr>Unix_Timestamp = ''30'', Open = ''105'', Close = ''95'', High = ''130'', Low = ''80'', tVol = ''5''\<rparr>].
        included True r \<longrightarrow> tickOrdered True r"
    by code_simp
qed

text \<open>
  The tick of Scenario B (open 100, high 110, low 120, close 90) is included, and the
  candle made of it alone has its low above its open, its close and its high.
\<close>

theorem candle_values_unordered_tick:
  "aggregateCandleData
     [\<lparr>Unix_Timestamp = ''0'', Open = ''100'', Close = ''90'', High = ''110'', Low = ''120'', tVol = ''7''\<rparr>]
     (Integer 60) True
   = Inr (Strings
       [\<lparr>open_v = ''100'', high = ''110'', low = ''120'', close = ''90'', volume = ''7'',
         unixTimestamp = Integer 0, readableTimestamp = ''1970-01-01T00:00:00.000Z''\<rparr>])
   \<and> \<not> candlesOrdered (Strings
       [\<lparr>open_v = ''100'', high = ''110'', low = ''120'', close = ''90'', volume = ''7'',
         unixTimestamp = Integer 0, readableTimestamp = ''1970-01-01T00:00:00.000Z''\<rparr>])
   \<and> \<not> bigintLe ''120'' ''100''"
  by code_simp




text \<open>
  The timestamp is not among the values that exact mode checks: \<open>parseInt\<close> does not
  throw, the tick opens the bucket \<open>NaN\<close>, and printing that bucket throws for the whole
  call, where approximate mode skips the record.
\<close>

lemma exact_mode_keeps_unparsed_timestamp:
  "foldExact (Integer 60) []
     \<lparr>Unix_Timestamp = ''soon'', Open = ''1'', Close = ''1'', High = ''1'', Low = ''1'', tVol = ''1''\<rparr>
   = [(NotANumber, \<lparr>open_v = 1, high = 1, low = 1, close = 1, volume = 1\<rparr>)]"
  and "aggregateCandleData
     [\<lparr>Unix_Timestamp = ''soon'', Open = ''1'', Close = ''1'', High = ''1'', Low = ''1'', tVol = ''1''\<rparr>,
      \<lparr>Unix_Timestamp = ''0'', Open = ''2'', Close = ''2'', High = ''2'', Low = ''2'', tVol = ''2''\<rparr>]
     (Integer 60) True = Inl RangeError"
  and "aggregateCandleData
     [\<lparr>Unix_Timestamp = ''soon'', Open = ''1'', Close = ''1'', High = ''1'', Low = ''1'', tVol = ''1''\<rparr>,
      \<lparr>Unix_Timestamp = ''0'', Open = ''2'', Close = ''2'', High = ''2'', Low = ''2'', tVol = ''2''\<rparr>]
     (Integer 60) False
   = Inr (Numbers
       [\<lparr>open_v = Finite 2, high = Finite 2, low = Finite 2, close = Finite 2, volume = Finite 2,
         unixTimestamp = Integer 0, readableTimestamp = ''1970-01-01T00:00:00.000Z''\<rparr>])"
  by code_simp+

text \<open>
  A label that is neither a key of \<open>timeframeMap\<close> nor a name that every object inherits
  is rejected by each endpoint with status 400 and the list of the labels, whatever the
  file holds: nothing is read or aggregated.
\<close>

lemma unknown_label_rejected:
  assumes "timeframe \<notin> set (map fst timeframeMap)" and "timeframe \<notin> set objectPrototypeKeys"
  shows "api_candles csv timeframe format
           = BadRequest ''Invalid timeframe specified.'' (map fst timeframeMap)"
    and "api_ohlc csv timeframe format = BadRequest ''Invalid timeframe.'' (map fst timeframeMap)"
    and "api_volume csv timeframe format = BadRequest ''Invalid timeframe.'' (map fst timeframeMap)"
proof -
  from assms(1) have "map_of timeframeMap timeframe = None"
    by (simp add: map_of_eq_None_iff)
  with assms(2) have "getProperty timeframeMap timeframe = Undefined"
    by (simp add: getProperty_def)
  then show "api_candles csv timeframe format
           = BadRequest ''Invalid timeframe specified.'' (map fst timeframeMap)"
    and "api_ohlc csv timeframe format = BadRequest ''Invalid timeframe.'' (map fst timeframeMap)"
    and "api_volume csv timeframe format = BadRequest ''Invalid timeframe.'' (map fst timeframeMap)"
    by (simp_all add: api_candles_def api_ohlc_def api_volume_def handle_def)
qed

text \<open>
  Claim C9 asks that every label outside the vocabulary is rejected with the list of the
  valid labels and that nothing is computed for it. The code does not do so for the names
  that every object inherits. The label \<open>constructor\<close> is outside the vocabulary, but the lookup finds the function
  that the object literal inherits, and the guard lets it pass: each endpoint reads the
  records and aggregates them with a width that is no number, which ends in status 500 as
  soon as one record is included, and in status 200 with no candle otherwise. A label that
  no object has, such as \<open>1w\<close>, is rejected.
\<close>

theorem inherited_label_passes_the_guard:
  "getProperty timeframeMap ''constructor'' = Inherited
   \<and> api_candles (Some [\<lparr>Unix_Timestamp = ''0'', Open = ''1'', Close = ''1'', High = ''1'', Low = ''1'', tVol = ''1''\<rparr>])
        ''constructor'' None = ServerError ''Error fetching candle data''
   \<and> api_ohlc (Some [\<lparr>Unix_Timestamp = ''0'', Open = ''1'', Close = ''1'', High = ''1'', Low = ''1'', tVol = ''1''\<rparr>])
        ''constructor'' (Some ''string'') = ServerError ''Error fetching OHLC data''
   \<and> api_volume (Some [\<lparr>Unix_Timestamp = ''0'', Open = ''1'', Close = ''1'', High = ''1'', Low = ''1'', tVol = ''1''\<rparr>])
        ''constructor'' None = ServerError ''Error fetching volume data''
   \<and> api_candles (Some []) ''constructor'' None = Ok (Numbers [])
   \<and> api_candles None ''constructor'' None = ServerError ''Error fetching candle data''
   \<and> api_candles None ''1w'' None = BadRequest ''Invalid timeframe specified.'' (map fst timeframeMap)"
  by code_simp








text \<open>
  Claim C10. In exact mode, a tick with the texts 100, 110, 120, 90 for open, high, low,
  close and 7 for the volume, anywhere in a record sequence in which no other included
  record falls into its bucket (and whose buckets all have a date), is aggregated into a
  candle for its bucket, and the candle of that bucket carries exactly the texts 100, 110,
  120, 90 and 7.
\<close>

theorem sole_tick_round_trip:
  assumes fields: "Open r = ''100''" "High r = ''110''" "Low r = ''120''" "Close r = ''90''"
      "tVol r = ''7''"
    and sole: "\<forall>r' \<in> set xs \<union> set ys.
                 includedExact r' \<longrightarrow> bucketStart tf r' \<noteq> bucketStart tf r"
    and dates: "\<forall>r' \<in> set (xs @ r # ys). includedExact r' \<longrightarrow> renderable (bucketStart tf r')"
  shows "\<exists>cs. aggregateCandleData (xs @ r # ys) tf True = Inr (Strings cs)
           \<and> (\<exists>c \<in> set cs. unixTimestamp c = bucketStart tf r)
           \<and> (\<forall>c \<in> set cs. unixTimestamp c = bucketStart tf r \<longrightarrow>
                 open_v c = ''100'' \<and> high c = ''110'' \<and> low c = ''120'' \<and> close c = ''90''
                 \<and> volume c = ''7'')"
proof -
  let ?k = "bucketStart tf r"
  let ?agg = "foldl (foldExact tf) [] (xs @ r # ys)"
  let ?v = "\<lparr>open_v = 100, high = 110, low = 120, close = 90, volume = 7 :: int\<rparr>"
  have p: "BigInt ''100'' = Some 100" "BigInt ''110'' = Some 110" "BigInt ''120'' = Some 120"
    "BigInt ''90'' = Some 90" "BigInt ''7'' = Some 7"
    by code_simp+
  have s: "bigintToString 100 = ''100''" "bigintToString 110 = ''110''"
    "bigintToString 120 = ''120''" "bigintToString 90 = ''90''" "bigintToString 7 = ''7''"
    by code_simp+
  from p fields have "BigInt (Open r) = Some 100" "BigInt (High r) = Some 110"
    "BigInt (Low r) = Some 120" "BigInt (Close r) = Some 90" "BigInt (tVol r) = Some 7"
    by simp_all
  from lookup_sole_tick [OF this sole] have "map_of ?agg ?k = Some ?v" .
  then have e: "(?k, ?v) \<in> set ?agg" by (rule map_of_SomeD)
  from aggregateExact_buckets [OF dates] obtain cs where
    cs: "aggregateExact (xs @ r # ys) tf = Inr cs" and d: "distinct (map unixTimestamp cs)"
    by blast
  from cs obtain cs0 where m: "mapEntries entryToCandle ?agg = Inr cs0"
    and set: "set cs = set cs0"
    by (auto simp: aggregateExact_def split: sum.splits)
  from m have "list_all2 (\<lambda>x y. entryToCandle x = Inr y) ?agg cs0" by (rule mapEntries_Inr)
  from list_all2_pick [OF this e] obtain c where c: "c \<in> set cs0"
    and ec: "entryToCandle (?k, ?v) = Inr c"
    by blast
  from entryToCandle_Inr(2-7) [OF ec] s
  have c': "unixTimestamp c = ?k" "open_v c = ''100''" "high c = ''110''" "low c = ''120''"
    "close c = ''90''" "volume c = ''7''"
    by simp_all
  from d have inj: "inj_on unixTimestamp (set cs)" by (simp add: distinct_map)
  have "\<forall>c' \<in> set cs. unixTimestamp c' = ?k \<longrightarrow>
          open_v c' = ''100'' \<and> high c' = ''110'' \<and> low c' = ''120'' \<and> close c' = ''90''
          \<and> volume c' = ''7''"
  proof (intro ballI impI)
    fix c' assume "c' \<in> set cs" "unixTimestamp c' = ?k"
    with inj c c'(1) set have "c' = c" by (metis inj_onD)
    with c' show "open_v c' = ''100'' \<and> high c' = ''110'' \<and> low c' = ''120''
        \<and> close c' = ''90'' \<and> volume c' = ''7''"
      by simp
  qed
  moreover from c c'(1) set have "\<exists>c \<in> set cs. unixTimestamp c = ?k" by auto
  ultimately show ?thesis using cs by (simp add: aggregateCandleData_def)
qed

theorem sole_tick_round_trip_witness:
  "\<exists>cs. aggregateCandleData
          ([\<lparr>Unix_Timestamp = ''1704067190'', Open = ''1'', Close = ''1'', High = ''1'', Low = ''1'', tVol = ''1''\<rparr>]
           @ \<lparr>Unix_Timestamp = ''1704067200'', Open = ''100'', Close = ''90'', High = ''110'', Low = ''120'', tVol = ''7''\<rparr>
           # [\<lparr>Unix_Timestamp = ''1704067260'', Open = ''2'', Close = ''2'', High = ''2'', Low = ''2'', tVol = ''2''\<rparr>])
          (Integer 60) True = Inr (Strings cs)
      \<and> (\<exists>c \<in> set cs. unixTimestamp c = bucketStart (Integer 60)
            \<lparr>Unix_Timestamp = ''1704067200'', Open = ''100'', Close = ''90'', High = ''110'', Low = ''120'', tVol = ''7''\<rparr>)
      \<and> (\<forall>c \<in> set cs. unixTimestamp c = bucketStart (Integer 60)
            \<lparr>Unix_Timestamp = ''1704067200'', Open = ''100'', Close = ''90'', High = ''110'', Low = ''120'', tVol = ''7''\<rparr> \<longrightarrow>
              open_v c = ''100'' \<and> high c = ''110'' \<and> low c = ''120'' \<and> close c = ''90''
              \<and> volume c = ''7'')"
  by (rule sole_tick_round_trip) (simp_all, code_simp+)

end
